theory Spec2Isabelle
  imports Complex_Main "HOL-Library.Sublist"
begin

section \<open>Data model: cells and data frames\<close>

text \<open>
  The program (\<^verbatim>\<open>csv_reader.py\<close>) keeps the loaded file in a pandas data frame.
  A data frame is modelled row-major: the column labels, the index labels (pandas'
  \<^verbatim>\<open>RangeIndex\<close> values) and the rows, each row a list of cells.

  A floating-point cell is a sign together with a dyadic magnitude \<open>m * 2^e\<close>, or an
  infinity. NaN (and None) is the missing cell: it is what \<^verbatim>\<open>pd.isna\<close> recognises.
\<close>

datatype pyfloat = Finite bool nat int | Infinity bool

datatype cell = NA | PyStr string | PyInt int | PyBool bool | PyFloat pyfloat

record dataframe =
  columns :: "string list"
  index :: "int list"
  rows :: "cell list list"

definition empty_frame :: dataframe where
  \<comment> \<open>\<^verbatim>\<open>pd.DataFrame()\<close>\<close>
  "empty_frame = \<lparr>columns = [], index = [], rows = []\<rparr>"

definition len :: "dataframe \<Rightarrow> int" where
  \<comment> \<open>\<^verbatim>\<open>len(df)\<close>: the number of rows\<close>
  "len d = int (length (rows d))"

definition df_empty :: "dataframe \<Rightarrow> bool" where
  \<comment> \<open>\<^verbatim>\<open>df.empty\<close>: some axis has length 0\<close>
  "df_empty d \<longleftrightarrow> rows d = [] \<or> columns d = []"

text \<open>Python's slice \<^verbatim>\<open>xs[start:stop]\<close>, negative bounds counting from the end.\<close>

definition slice_bound :: "nat \<Rightarrow> int \<Rightarrow> nat" where
  "slice_bound n i = (if i < 0 then nat (max 0 (int n + i)) else min (nat i) n)"

definition py_slice :: "'a list \<Rightarrow> int \<Rightarrow> int \<Rightarrow> 'a list" where
  "py_slice xs start stop =
     (let a = slice_bound (length xs) start; b = slice_bound (length xs) stop
      in take (b - a) (drop a xs))"

definition iloc :: "dataframe \<Rightarrow> int \<Rightarrow> int \<Rightarrow> dataframe" where
  \<comment> \<open>\<^verbatim>\<open>df.iloc[start:stop]\<close>: a positional slice of the rows, labels kept\<close>
  "iloc d start stop =
     \<lparr>columns = columns d, index = py_slice (index d) start stop,
      rows = py_slice (rows d) start stop\<rparr>"

text \<open>
  \<^verbatim>\<open>pd.concat([a, b])\<close>. On equal column lists the rows of \<open>b\<close> follow those of \<open>a\<close>
  and every row keeps its index label. On different column lists pandas takes the union
  of the columns and fills the cells a frame does not have with NaN.
\<close>

definition reindex_row :: "string list \<Rightarrow> string list \<Rightarrow> cell list \<Rightarrow> cell list" where
  "reindex_row new old r =
     map (\<lambda>c. case map_of (zip old r) c of None \<Rightarrow> NA | Some v \<Rightarrow> v) new"

definition pd_concat :: "dataframe \<Rightarrow> dataframe \<Rightarrow> dataframe" where
  "pd_concat a b =
     (if columns a = columns b
      then \<lparr>columns = columns a, index = index a @ index b, rows = rows a @ rows b\<rparr>
      else let cs = columns a @ filter (\<lambda>c. c \<notin> set (columns a)) (columns b)
           in \<lparr>columns = cs, index = index a @ index b,
               rows = map (reindex_row cs (columns a)) (rows a) @
                      map (reindex_row cs (columns b)) (rows b)\<rparr>)"

section \<open>The windowed store: \<^verbatim>\<open>DataFrameModel\<close>\<close>

definition VISIBLE_ROWS :: int where
  "VISIBLE_ROWS = 100"

definition CHUNK_SIZE :: int where
  "CHUNK_SIZE = 100000"

text \<open>
  The fields of \<^verbatim>\<open>DataFrameModel\<close>; \<open>layout_changed\<close> counts the emissions of
  the \<^verbatim>\<open>layoutChanged\<close> signal.
\<close>

record df_model =
  df :: dataframe
  display_df :: dataframe
  total_rows :: int
  loaded_rows :: int
  offset :: int
  layout_changed :: nat

definition init_model :: df_model where
  \<comment> \<open>\<^verbatim>\<open>DataFrameModel.__init__\<close>\<close>
  "init_model = \<lparr>df = empty_frame, display_df = empty_frame, total_rows = 0,
                 loaded_rows = 0, offset = 0, layout_changed = 0\<rparr>"

definition update_display_data :: "df_model \<Rightarrow> df_model" where
  "update_display_data m =
     (let end_idx = min (offset m + VISIBLE_ROWS) (len (df m))
      in if offset m < len (df m)
         then m\<lparr>display_df := iloc (df m) (offset m) end_idx,
                layout_changed := Suc (layout_changed m)\<rparr>
         else m)"

definition set_offset :: "int \<Rightarrow> df_model \<Rightarrow> df_model" where
  "set_offset off m =
     update_display_data (m\<lparr>offset := max 0 (min off (total_rows m - VISIBLE_ROWS))\<rparr>)"

definition set_total_rows :: "int \<Rightarrow> df_model \<Rightarrow> df_model" where
  "set_total_rows n m = m\<lparr>total_rows := n\<rparr>"

definition update_chunk :: "dataframe \<Rightarrow> int \<Rightarrow> df_model \<Rightarrow> df_model" where
  "update_chunk chunk loaded m =
     update_display_data
       (m\<lparr>df := (if df_empty (df m) then chunk else pd_concat (df m) chunk),
          loaded_rows := loaded\<rparr>)"

text \<open>The clamp of the specification: \<open>x\<close> forced into \<open>[lo, hi]\<close>.\<close>

definition clamp :: "int \<Rightarrow> int \<Rightarrow> int \<Rightarrow> int" where
  "clamp x lo hi = max lo (min x hi)"

section \<open>Text: decimal numerals, case folding, value formatting\<close>

definition digit_char :: "nat \<Rightarrow> char" where
  "digit_char d = ''0123456789'' ! d"

fun str_nat :: "nat \<Rightarrow> string" where
  "str_nat n = (if n < 10 then [digit_char n] else str_nat (n div 10) @ [digit_char (n mod 10)])"

declare str_nat.simps [simp del]

definition str_int :: "int \<Rightarrow> string" where
  \<comment> \<open>\<^verbatim>\<open>str(i)\<close> of a Python integer\<close>
  "str_int i = (if i < 0 then CHR ''-'' # str_nat (nat (- i)) else str_nat (nat i))"

definition str_bool :: "bool \<Rightarrow> string" where
  "str_bool b = (if b then ''True'' else ''False'')"

definition is_digit :: "char \<Rightarrow> bool" where
  "is_digit c \<longleftrightarrow> c \<in> set ''0123456789''"

definition to_lower :: "char \<Rightarrow> char" where
  \<comment> \<open>case folding of the ASCII letters; every other character is left as it is\<close>
  "to_lower c =
     (let n = (of_char c :: nat) in if 65 \<le> n \<and> n \<le> 90 then char_of (n + 32) else c)"

definition rne_div :: "nat \<Rightarrow> nat \<Rightarrow> nat" where
  \<comment> \<open>\<open>n / d\<close> rounded to the nearest natural number, ties to the even one\<close>
  "rne_div n d =
     (let q = n div d; r = n mod d
      in if 2 * r < d then q else if d < 2 * r then q + 1
         else if even q then q else q + 1)"

definition zero_pad6 :: "string \<Rightarrow> string" where
  "zero_pad6 s = replicate (6 - length s) CHR ''0'' @ s"

definition format_6f :: "pyfloat \<Rightarrow> string" where
  \<comment> \<open>\<^verbatim>\<open>f"{value:.6f}"\<close>: the exact value, correctly rounded to six decimals\<close>
  "format_6f x =
     (case x of
        Infinity s \<Rightarrow> (if s then ''-inf'' else ''inf'')
      | Finite s m e \<Rightarrow>
          (let q = (if 0 \<le> e then m * 2 ^ nat e * 1000000
                    else rne_div (m * 1000000) (2 ^ nat (- e)))
           in (if s then ''-'' else []) @ str_nat (q div 1000000) @ ''.'' @
              zero_pad6 (str_nat (q mod 1000000))))"

definition fraction_part :: "string \<Rightarrow> string" where
  \<comment> \<open>the characters after the first decimal point\<close>
  "fraction_part s = drop 1 (dropWhile (\<lambda>c. c \<noteq> CHR ''.'') s)"

section \<open>Binary floating-point arithmetic of the progress and scroll computations\<close>

text \<open>
  Python's \<open>a / b\<close> on integers and \<open>x * k\<close> on a float and an integer return the exact
  result rounded to the nearest double, ties to even. A double is modelled by the
  rational number it denotes; \<open>rn\<close> rounds a rational to 53 significant bits. The
  exponent range is not limited: the row counts and scroll positions of the program are far
  from the overflow and underflow thresholds of the format.
\<close>

function log2_floor :: "int \<Rightarrow> int" where
  "log2_floor n = (if n < 2 then 0 else 1 + log2_floor (n div 2))"
  by pat_completeness auto
termination
  by (relation "measure nat") auto

declare log2_floor.simps [simp del]

definition binade :: "rat \<Rightarrow> int" where
  \<comment> \<open>for \<open>x > 0\<close>, the \<open>k\<close> with \<open>2^k \<le> x < 2^(k+1)\<close>\<close>
  "binade x =
     (let (n, d) = quotient_of x;
          k = log2_floor n - log2_floor d
      in if 2 powi k \<le> x then k else k - 1)"

definition round_half_even :: "rat \<Rightarrow> int" where
  "round_half_even x =
     (let f = \<lfloor>x\<rfloor>; r = x - of_int f
      in if r < 1 / 2 then f else if 1 / 2 < r then f + 1
         else if even f then f else f + 1)"

definition rn :: "rat \<Rightarrow> rat" where
  "rn x =
     (if x = 0 then 0
      else let e = binade \<bar>x\<bar> - 52
           in sgn x * (of_int (round_half_even (\<bar>x\<bar> / 2 powi e)) * 2 powi e))"

datatype py_exception = ReError | ZeroDivisionError | KeyError | ParserError | OSError

definition py_truediv :: "int \<Rightarrow> int \<Rightarrow> py_exception + rat" where
  \<comment> \<open>\<open>a / b\<close> on Python integers\<close>
  "py_truediv a b = (if b = 0 then Inl ZeroDivisionError else Inr (rn (of_int a / of_int b)))"

definition py_mul :: "rat \<Rightarrow> int \<Rightarrow> rat" where
  \<comment> \<open>\<open>x * k\<close>, a float times a Python integer\<close>
  "py_mul x k = rn (x * rn (of_int k))"

definition py_int :: "rat \<Rightarrow> int" where
  \<comment> \<open>\<^verbatim>\<open>int(x)\<close>: truncation towards zero\<close>
  "py_int x = (if 0 \<le> x then \<lfloor>x\<rfloor> else \<lceil>x\<rceil>)"

section \<open>The runtime the program is run on\<close>

text \<open>
  Three behaviours of the Python runtime and of pandas are parameters of the model:
  \<^item> \<open>float_repr\<close>: the text \<^verbatim>\<open>str\<close> gives a float (the shortest decimal that
    reads back as the same double);
  \<^item> \<open>na_repr\<close>: what \<^verbatim>\<open>astype(str)\<close> makes of a missing cell: \<open>Some ''nan''\<close>
    where pandas turns NaN into the text \<^verbatim>\<open>nan\<close>, \<open>None\<close> where the cell stays
    missing;
  \<^item> \<open>re_other\<close>: the result of \<^verbatim>\<open>re.compile(pat, re.IGNORECASE)\<close> on the patterns
    whose syntax is not spelled out below.
\<close>

record runtime =
  float_repr :: "pyfloat \<Rightarrow> string"
  na_repr :: "string option"
  re_other :: "string \<Rightarrow> py_exception + (string \<Rightarrow> bool)"

text \<open>
  The runtime of the examples: pandas before version 3, where \<^verbatim>\<open>astype(str)\<close> turns NaN
  into the text \<^verbatim>\<open>nan\<close>. No example searches a column of floats or uses a pattern outside
  the classes spelled out, so that the other two fields are never read; they are empty.
\<close>

definition example_runtime :: runtime where
  "example_runtime =
     \<lparr>float_repr = (\<lambda>x. []), na_repr = Some ''nan'',
      re_other = (\<lambda>p. Inl ReError)\<rparr>"

section \<open>Regular expressions: the patterns spelled out\<close>

text \<open>
  \<^verbatim>\<open>Series.str.contains(text, case=False, na=False)\<close> takes \<open>text\<close> as a regular
  expression (\<^verbatim>\<open>regex=True\<close> is the default), compiles it once with
  \<^verbatim>\<open>re.IGNORECASE\<close> and tests \<^verbatim>\<open>search\<close> on every string of the column.
  Three classes of patterns are spelled out: a pattern with no special character matches
  itself; the dot matches every character but the newline; a pattern with an opening
  parenthesis and no other special character but dots does not compile. Texts are ASCII:
  letter case is folded on the letters \<open>A\<close> to \<open>Z\<close> only.
\<close>

definition re_special :: "char \<Rightarrow> bool" where
  "re_special c \<longleftrightarrow>
     c \<in> set [CHR ''.'', CHR ''^'', CHR ''$'', CHR ''*'', CHR ''+'', CHR ''?'', CHR ''{'',
              CHR ''}'', CHR ''['', CHR '']'', CHR 0x5C, CHR ''|'', CHR ''('', CHR '')'']"

datatype re_atom = Lit char | AnyChar

definition re_atom_of :: "char \<Rightarrow> re_atom" where
  "re_atom_of c = (if c = CHR ''.'' then AnyChar else Lit c)"

fun atom_matches :: "re_atom \<Rightarrow> char \<Rightarrow> bool" where
  "atom_matches (Lit x) c \<longleftrightarrow> to_lower x = to_lower c"
| "atom_matches AnyChar c \<longleftrightarrow> c \<noteq> CHR 0x0A"

fun match_here :: "re_atom list \<Rightarrow> string \<Rightarrow> bool" where
  "match_here [] s \<longleftrightarrow> True"
| "match_here (a # as) [] \<longleftrightarrow> False"
| "match_here (a # as) (c # s) \<longleftrightarrow> atom_matches a c \<and> match_here as s"

fun re_search :: "re_atom list \<Rightarrow> string \<Rightarrow> bool" where
  "re_search as [] \<longleftrightarrow> match_here as []"
| "re_search as (c # s) \<longleftrightarrow> match_here as (c # s) \<or> re_search as s"

definition plain :: "string \<Rightarrow> bool" where
  \<comment> \<open>no character of the pattern is special to \<^verbatim>\<open>re\<close>\<close>
  "plain p \<longleftrightarrow> list_all (\<lambda>c. \<not> re_special c) p"

definition re_compile :: "runtime \<Rightarrow> string \<Rightarrow> py_exception + (string \<Rightarrow> bool)" where
  "re_compile rt p =
     (if list_all (\<lambda>c. c = CHR ''.'' \<or> \<not> re_special c) p
      then Inr (re_search (map re_atom_of p))
      else if list_all (\<lambda>c. c = CHR ''.'' \<or> c = CHR ''('' \<or> \<not> re_special c) p
      then Inl ReError
      else re_other rt p)"

section \<open>The search: \<^verbatim>\<open>CSVReaderApp.search_data\<close>\<close>

text \<open>
  The program selects a column by its label, \<^verbatim>\<open>df[column_name]\<close>. The labels of a frame
  that \<^verbatim>\<open>read_csv\<close> made are distinct (it renames duplicates), so that the column of the
  \<open>j\<close>-th label is the \<open>j\<close>-th cell of every row.
\<close>

definition astype_str :: "runtime \<Rightarrow> cell \<Rightarrow> string option" where
  \<comment> \<open>a cell of \<^verbatim>\<open>df[col].astype(str)\<close>; \<open>None\<close> is a cell that is still missing\<close>
  "astype_str rt c =
     (case c of
        NA \<Rightarrow> na_repr rt
      | PyStr s \<Rightarrow> Some s
      | PyInt i \<Rightarrow> Some (str_int i)
      | PyBool b \<Rightarrow> Some (str_bool b)
      | PyFloat x \<Rightarrow> Some (float_repr rt x))"

definition column_cells :: "dataframe \<Rightarrow> nat \<Rightarrow> cell list" where
  \<comment> \<open>\<^verbatim>\<open>df[df.columns[j]]\<close>: the cells of column \<open>j\<close>, one per row\<close>
  "column_cells d j = map (\<lambda>r. r ! j) (rows d)"

definition cell_matches :: "(string \<Rightarrow> bool) \<Rightarrow> string option \<Rightarrow> bool" where
  \<comment> \<open>one element of \<^verbatim>\<open>str.contains\<close>: \<^verbatim>\<open>na=False\<close> on a missing cell\<close>
  "cell_matches f t = (case t of None \<Rightarrow> False | Some s \<Rightarrow> f s)"

definition str_contains :: "runtime \<Rightarrow> string \<Rightarrow> cell list \<Rightarrow> py_exception + bool list" where
  \<comment> \<open>\<^verbatim>\<open>series.astype(str).str.contains(text, case=False, na=False)\<close>\<close>
  "str_contains rt text cs =
     (case re_compile rt text of
        Inl e \<Rightarrow> Inl e
      | Inr f \<Rightarrow> Inr (map (\<lambda>c. cell_matches f (astype_str rt c)) cs))"

fun or_columns ::
  "runtime \<Rightarrow> string \<Rightarrow> dataframe \<Rightarrow> nat list \<Rightarrow> bool list \<Rightarrow> py_exception + bool list" where
  "or_columns rt text d [] acc = Inr acc"
| "or_columns rt text d (j # js) acc =
     (case str_contains rt text (column_cells d j) of
        Inl e \<Rightarrow> Inl e
      | Inr m \<Rightarrow> or_columns rt text d js (map2 (\<or>) acc m))"

definition search_mask :: "runtime \<Rightarrow> string \<Rightarrow> int \<Rightarrow> dataframe \<Rightarrow> py_exception + bool list" where
  \<comment> \<open>the two branches on \<open>column_idx\<close>; \<^verbatim>\<open>df[False]\<close> (no column at all) raises\<close>
  "search_mask rt text column_idx d =
     (if 0 \<le> column_idx \<and> column_idx < int (length (columns d))
      then str_contains rt text (column_cells d (nat column_idx))
      else if columns d = [] then Inl KeyError
      else or_columns rt text d [0..<length (columns d)]
             (replicate (length (rows d)) False))"

definition result_indices :: "runtime \<Rightarrow> string \<Rightarrow> int \<Rightarrow> dataframe \<Rightarrow> py_exception + int list" where
  \<comment> \<open>\<^verbatim>\<open>df[mask].index\<close>: the labels of the rows the mask selects\<close>
  "result_indices rt text column_idx d =
     (case search_mask rt text column_idx d of
        Inl e \<Rightarrow> Inl e
      | Inr m \<Rightarrow> Inr (map fst (filter snd (zip (index d) m))))"

datatype status_message =
  Welcome | Loading | LoadedSuccessfully | FoundMatches nat | NoMatchesFound
  | SearchError py_exception | ErrorLoadingFile

datatype dialog = CouldNotOpenFile py_exception | ErrorLoadingData py_exception

text \<open>
  The fields of \<^verbatim>\<open>CSVReaderApp\<close> the data path reads and writes: the store, the
  status bar, the progress bar, the column selector (its items and its current index) and
  the error dialogs shown so far.
\<close>

record app =
  model :: df_model
  status :: status_message
  progress_value :: int
  progress_visible :: bool
  search_column :: "string list"
  current_index :: int
  dialogs :: "dialog list"

definition init_app :: app where
  "init_app = \<lparr>model = init_model, status = Welcome, progress_value = 0,
               progress_visible = False, search_column = [''All Columns''],
               current_index = 0, dialogs = []\<rparr>"

definition search_data :: "runtime \<Rightarrow> string \<Rightarrow> app \<Rightarrow> app" where
  "search_data rt text a =
     (if text = [] \<or> df_empty (df (model a)) then a
      else let column_idx = current_index a - 1
           in case result_indices rt text column_idx (df (model a)) of
                Inl e \<Rightarrow> a\<lparr>status := SearchError e\<rparr>
              | Inr res \<Rightarrow>
                  (case res of
                     [] \<Rightarrow> a\<lparr>status := NoMatchesFound\<rparr>
                   | first_result # _ \<Rightarrow>
                       a\<lparr>model := set_offset (max 0 (first_result - 5)) (model a),
                         status := FoundMatches (length res)\<rparr>))"

section \<open>The chunked loader: \<^verbatim>\<open>DataLoaderThread.run\<close>\<close>

text \<open>
  The signals of the loader thread, in the order they are emitted. Qt delivers the signals
  of one thread to the slots of another in that order.
\<close>

datatype event =
  ProgressUpdate int | DataLoaded dataframe int | ErrorOccurred py_exception

text \<open>
  What the iterator of \<^verbatim>\<open>pd.read_csv(path, chunksize=n)\<close> does when the loop asks for
  the next chunk: it yields a chunk or it raises; at the end of the list it is exhausted.
  Each step comes with the value of \<^verbatim>\<open>is_running\<close> the loop body then reads.
\<close>

datatype reader_step = Yield dataframe | Raise py_exception

definition progress_of :: "int \<Rightarrow> int \<Rightarrow> py_exception + int" where
  \<comment> \<open>\<^verbatim>\<open>int((chunks_loaded / total_lines) * 100)\<close>\<close>
  "progress_of chunks_loaded total_lines =
     (case py_truediv chunks_loaded total_lines of
        Inl e \<Rightarrow> Inl e
      | Inr q \<Rightarrow> Inr (py_int (py_mul q 100)))"

fun run_loop :: "int \<Rightarrow> int \<Rightarrow> (reader_step \<times> bool) list \<Rightarrow> event list" where
  "run_loop total_lines chunks_loaded [] = [ProgressUpdate 100]"
| "run_loop total_lines chunks_loaded ((Raise e, is_running) # steps) = [ErrorOccurred e]"
| "run_loop total_lines chunks_loaded ((Yield chunk, is_running) # steps) =
     (if \<not> is_running then [ProgressUpdate 100]
      else case progress_of (chunks_loaded + len chunk) total_lines of
             Inl e \<Rightarrow> [ErrorOccurred e]
           | Inr progress \<Rightarrow>
               DataLoaded chunk (chunks_loaded + len chunk) # ProgressUpdate progress #
               run_loop total_lines (chunks_loaded + len chunk) steps)"

definition run :: "py_exception + int \<Rightarrow> (reader_step \<times> bool) list \<Rightarrow> event list" where
  \<comment> \<open>the first argument is the outcome of counting the lines of the file\<close>
  "run line_count steps =
     (case line_count of
        Inl e \<Rightarrow> [ErrorOccurred e]
      | Inr total_lines \<Rightarrow> ProgressUpdate 0 # run_loop total_lines 0 steps)"

text \<open>
  The chunks \<^verbatim>\<open>read_csv\<close> yields for a file with header \<open>hdr\<close> whose data rows have as
  many fields as the header and parse into the batches \<open>bs\<close>: every chunk has the columns of
  the header, and the index is the default one, whose labels are the row positions and count
  on from chunk to chunk. The type pandas gives a column of a chunk is not modelled: a cell
  is the value it holds.
\<close>

fun read_csv_chunks :: "string list \<Rightarrow> nat \<Rightarrow> cell list list list \<Rightarrow> dataframe list" where
  "read_csv_chunks hdr start [] = []"
| "read_csv_chunks hdr start (b # bs) =
     \<lparr>columns = hdr, index = map int [start..<start + length b], rows = b\<rparr> #
     read_csv_chunks hdr (start + length b) bs"

text \<open>
  The chunks for a file whose data rows have one field more than the header: \<^verbatim>\<open>read_csv\<close>
  takes the first field of every row as the index label of the row (an integer here) and the
  other fields as its cells. The labels are those the file gives, in the order of the rows.
\<close>

definition read_csv_labelled_chunks ::
  "string list \<Rightarrow> (int \<times> cell list) list list \<Rightarrow> dataframe list" where
  "read_csv_labelled_chunks hdr bs =
     map (\<lambda>b. \<lparr>columns = hdr, index = map fst b, rows = map snd b\<rparr>) bs"

definition yields :: "dataframe list \<Rightarrow> (reader_step \<times> bool) list" where
  \<comment> \<open>the chunks, each read while \<^verbatim>\<open>is_running\<close> is set\<close>
  "yields cs = map (\<lambda>c. (Yield c, True)) cs"

section \<open>The control side: slots of \<^verbatim>\<open>CSVReaderApp\<close>\<close>

definition load_file :: "py_exception + int \<Rightarrow> app \<Rightarrow> app" where
  \<comment> \<open>up to the start of the loader thread; the argument is the outcome of the line count\<close>
  "load_file line_count a =
     (let a1 = a\<lparr>model := init_model, status := Loading, progress_value := 0,
                  progress_visible := True\<rparr>
      in case line_count of
           Inl e \<Rightarrow> a1\<lparr>dialogs := dialogs a1 @ [CouldNotOpenFile e], progress_visible := False\<rparr>
         | Inr total_lines \<Rightarrow>
             a1\<lparr>model := set_total_rows (total_lines - 1) (model a1),
                search_column := [''All Columns''], current_index := 0\<rparr>)"

definition update_progress :: "int \<Rightarrow> app \<Rightarrow> app" where
  "update_progress v a =
     (let a1 = a\<lparr>progress_value := v\<rparr>
      in if v = 100 then a1\<lparr>progress_visible := False, status := LoadedSuccessfully\<rparr> else a1)"

definition update_data :: "dataframe \<Rightarrow> int \<Rightarrow> app \<Rightarrow> app" where
  "update_data chunk loaded a =
     (let a1 = a\<lparr>model := update_chunk chunk loaded (model a)\<rparr>
      in if length (search_column a1) \<le> 1 \<and> \<not> df_empty chunk
         then a1\<lparr>search_column := search_column a1 @ columns chunk\<rparr>
         else a1)"

definition update_visible_rows :: "int \<Rightarrow> app \<Rightarrow> app" where
  "update_visible_rows off a = a\<lparr>model := set_offset off (model a)\<rparr>"

definition handle_error :: "py_exception \<Rightarrow> app \<Rightarrow> app" where
  "handle_error e a =
     a\<lparr>dialogs := dialogs a @ [ErrorLoadingData e], progress_visible := False,
       status := ErrorLoadingFile\<rparr>"

fun deliver :: "app \<Rightarrow> event \<Rightarrow> app" where
  "deliver a (ProgressUpdate v) = update_progress v a"
| "deliver a (DataLoaded chunk loaded) = update_data chunk loaded a"
| "deliver a (ErrorOccurred e) = handle_error e a"

definition load :: "int \<Rightarrow> (reader_step \<times> bool) list \<Rightarrow> app \<Rightarrow> app" where
  \<comment> \<open>a whole load of a file of \<open>total_lines\<close> lines: the reset, then every signal of the loader\<close>
  "load total_lines steps a =
     foldl deliver (load_file (Inr total_lines) a) (run (Inr total_lines) steps)"

definition progress_values :: "event list \<Rightarrow> int list" where
  "progress_values evs = concat (map (\<lambda>ev. case ev of ProgressUpdate v \<Rightarrow> [v] | _ \<Rightarrow> []) evs)"

definition loaded_batches :: "event list \<Rightarrow> dataframe list" where
  "loaded_batches evs = concat (map (\<lambda>ev. case ev of DataLoaded c n \<Rightarrow> [c] | _ \<Rightarrow> []) evs)"

definition failures :: "event list \<Rightarrow> py_exception list" where
  "failures evs = concat (map (\<lambda>ev. case ev of ErrorOccurred e \<Rightarrow> [e] | _ \<Rightarrow> []) evs)"

section \<open>The scroll mapper: \<^verbatim>\<open>OptimizedTableView\<close>\<close>

text \<open>
  The view keeps the last raw scroll value and a single-shot timer; \<open>scroll_timer\<close> is
  the time at which the running timer is due, \<open>None\<close> when it is not running. Time is
  counted in milliseconds. \<^verbatim>\<open>QTimer.start(50)\<close> starts the timer, or restarts it
  when it is running.
\<close>

record view =
  current_scroll_value :: int
  scroll_timer :: "nat option"

definition init_view :: view where
  "init_view = \<lparr>current_scroll_value = 0, scroll_timer = None\<rparr>"

definition handle_scroll :: "nat \<Rightarrow> int \<Rightarrow> view \<Rightarrow> view" where
  \<comment> \<open>the slot of \<^verbatim>\<open>valueChanged\<close>, run at time \<open>now\<close>\<close>
  "handle_scroll now v w = w\<lparr>current_scroll_value := v, scroll_timer := Some (now + 50)\<rparr>"

definition qt_int :: "int \<Rightarrow> int" where
  \<comment> \<open>what a slot receives of a Python integer emitted on a \<^verbatim>\<open>pyqtSignal(int)\<close>: the
      signal carries a C \<^verbatim>\<open>int\<close>, the low 32 bits of the value, signed\<close>
  "qt_int v = (v + 2147483648) mod 4294967296 - 2147483648"

definition update_model_from_scroll :: "int \<Rightarrow> int \<Rightarrow> view \<Rightarrow> int list" where
  \<comment> \<open>the slot of the timer: the values delivered by \<^verbatim>\<open>scroll_position_changed\<close>;
      \<open>max_scroll\<close> is the maximum of the scroll bar, \<open>rows_total\<close> the \<^verbatim>\<open>total_rows\<close> of the store\<close>
  "update_model_from_scroll max_scroll rows_total w =
     (if 0 < rows_total then
        (if 0 < max_scroll then
           (case py_truediv (current_scroll_value w) max_scroll of
              Inl e \<Rightarrow> []
            | Inr visible_ratio \<Rightarrow>
                [qt_int (py_int (py_mul visible_ratio (rows_total - VISIBLE_ROWS)))])
         else [])
      else [])"

text \<open>
  The timer is of Qt's default type, \<^verbatim>\<open>Qt::CoarseTimer\<close>, which Qt keeps within 5% of the
  interval: the timer of 50 ms may fire up to 2.5 ms before it is due, in whole
  milliseconds not more than 3 ms before. It fires when the event loop of the thread
  serves it, which may be later than it is due.
\<close>

definition TIMER_EARLY :: nat where
  "TIMER_EARLY = 3"

text \<open>
  A run of the view over raw scroll changes \<open>(time, value, fired)\<close>, in the order of their
  times. \<open>fired\<close> tells whether the event loop served the running timer before it handled
  the change: it can have done so from \<open>TIMER_EARLY\<close> before the due time on, and it need
  not have done so even after the due time (then the change restarts the timer). After the
  last change the running timer fires. The result is the list of offsets delivered.
\<close>

fun scroll_run :: "int \<Rightarrow> int \<Rightarrow> view \<Rightarrow> (nat \<times> int \<times> bool) list \<Rightarrow> int list" where
  "scroll_run max_scroll rows_total w [] =
     (case scroll_timer w of
        None \<Rightarrow> []
      | Some due \<Rightarrow> update_model_from_scroll max_scroll rows_total w)"
| "scroll_run max_scroll rows_total w ((now, v, fired) # changes) =
     (case scroll_timer w of
        None \<Rightarrow> scroll_run max_scroll rows_total (handle_scroll now v w) changes
      | Some due \<Rightarrow>
          (if fired \<and> due \<le> now + TIMER_EARLY
           then update_model_from_scroll max_scroll rows_total w @
                scroll_run max_scroll rows_total (handle_scroll now v (w\<lparr>scroll_timer := None\<rparr>)) changes
           else scroll_run max_scroll rows_total (handle_scroll now v w) changes))"

fun spaced :: "nat \<Rightarrow> (nat \<times> int \<times> bool) list \<Rightarrow> bool" where
  \<comment> \<open>consecutive changes are less than \<open>d\<close> apart\<close>
  "spaced d [] \<longleftrightarrow> True"
| "spaced d [c] \<longleftrightarrow> True"
| "spaced d (c # c' # cs) \<longleftrightarrow> fst c \<le> fst c' \<and> fst c' < fst c + d \<and> spaced d (c' # cs)"

section \<open>The presentation boundary: \<^verbatim>\<open>DataFrameModel.data\<close>\<close>

datatype qmodelindex = InvalidIndex | Index nat nat

datatype item_role = DisplayRole | BackgroundRole | TextAlignmentRole | OtherRole

datatype alignment = AlignRight | AlignLeft

datatype qvariant = Text string | Color nat nat nat | Alignment alignment

definition display_text :: "cell \<Rightarrow> string" where
  \<comment> \<open>the three branches of the display role: \<^verbatim>\<open>pd.isna\<close>, a float, anything else\<close>
  "display_text v =
     (case v of
        NA \<Rightarrow> []
      | PyFloat x \<Rightarrow> format_6f x
      | PyStr s \<Rightarrow> s
      | PyInt i \<Rightarrow> str_int i
      | PyBool b \<Rightarrow> str_bool b)"

definition is_number :: "cell \<Rightarrow> bool" where
  \<comment> \<open>\<^verbatim>\<open>isinstance(value, (int, float, np.number))\<close>; NaN is a float\<close>
  "is_number v = (case v of NA \<Rightarrow> True | PyInt i \<Rightarrow> True | PyFloat x \<Rightarrow> True | _ \<Rightarrow> False)"

definition data :: "df_model \<Rightarrow> qmodelindex \<Rightarrow> item_role \<Rightarrow> qvariant option" where
  "data m idx role =
     (case idx of
        InvalidIndex \<Rightarrow> None
      | Index row col \<Rightarrow>
          if df_empty (display_df m) then None
          else if length (rows (display_df m)) \<le> row \<or> length (columns (display_df m)) \<le> col
          then None
          else let v = rows (display_df m) ! row ! col
               in case role of
                    DisplayRole \<Rightarrow> Some (Text (display_text v))
                  | BackgroundRole \<Rightarrow>
                      Some (if row mod 2 = 0 then Color 45 45 45 else Color 55 55 55)
                  | TextAlignmentRole \<Rightarrow>
                      Some (Alignment (if is_number v then AlignRight else AlignLeft))
                  | OtherRole \<Rightarrow> None)"

section \<open>Notions used in the statements\<close>

definition percent :: "int \<Rightarrow> int \<Rightarrow> int" where
  \<comment> \<open>the value of \<open>progress_of\<close> where the division does not raise\<close>
  "percent c t = py_int (py_mul (rn (of_int c / of_int t)) 100)"

fun batch_events :: "int \<Rightarrow> int \<Rightarrow> dataframe list \<Rightarrow> event list" where
  \<comment> \<open>the two signals of every chunk, \<open>c\<close> the rows loaded before\<close>
  "batch_events t c [] = []"
| "batch_events t c (ch # chs) =
     DataLoaded ch (c + len ch) # ProgressUpdate (percent (c + len ch) t) #
     batch_events t (c + len ch) chs"

fun cumulative :: "int \<Rightarrow> int list \<Rightarrow> int list" where
  \<comment> \<open>the running sums of a list of batch sizes\<close>
  "cumulative c [] = []"
| "cumulative c (n # ns) = (c + n) # cumulative (c + n) ns"

fun rows_yielded :: "(reader_step \<times> bool) list \<Rightarrow> int" where
  \<comment> \<open>the number of rows in all the chunks of a list of steps\<close>
  "rows_yielded [] = 0"
| "rows_yielded ((Yield c, r) # steps) = len c + rows_yielded steps"
| "rows_yielded ((Raise e, r) # steps) = rows_yielded steps"

definition frame_ok :: "string list \<Rightarrow> dataframe \<Rightarrow> bool" where
  \<comment> \<open>a dataset put together from the chunks of one file: the columns of the header
      once there is a chunk, and index labels that are the row positions\<close>
  "frame_ok hdr d \<longleftrightarrow>
     (columns d = hdr \<or> d = empty_frame) \<and> index d = map int [0..<length (rows d)]"

definition spec_field_matches :: "runtime \<Rightarrow> string \<Rightarrow> cell \<Rightarrow> bool" where
  \<comment> \<open>the predicate in the words of the specification: the query occurs, letter case
      aside, as a literal substring of the text of the field; a field with no text
      matches nothing\<close>
  "spec_field_matches rt q c =
     (case astype_str rt c of
        None \<Rightarrow> False
      | Some s \<Rightarrow> sublist (map to_lower q) (map to_lower s))"

section \<open>Example inputs\<close>

definition three_rows :: "cell list list" where
  "three_rows = [[PyInt 1], [PyInt 2], [PyInt 3]]"


definition haystack :: "nat \<Rightarrow> nat \<Rightarrow> cell list list" where
  \<comment> \<open>\<open>n\<close> rows of one column; only row \<open>k\<close> holds the word \<open>needle\<close>\<close>
  "haystack n k = map (\<lambda>i. [PyStr (if i = k then ''a needle'' else ''hay'')]) [0..<n]"

definition haystack_app :: "nat \<Rightarrow> nat \<Rightarrow> app" where
  \<comment> \<open>the application after the load of the file of the \<open>n\<close> rows and its header\<close>
  "haystack_app n k =
     load (int n + 1) (yields (read_csv_chunks [''text''] 0 [haystack n k])) init_app"

definition notes_app :: app where
  \<comment> \<open>the application after the load of a file of two columns and three rows\<close>
  "notes_app =
     load 4 (yields (read_csv_chunks [''name'', ''note''] 0
                [[[PyStr ''abc'', NA], [PyStr ''f(x)'', PyInt 7], [PyStr ''Nancy'', PyStr ''a.c'']]]))
       init_app"

definition mixed_store :: df_model where
  \<comment> \<open>the store after the load of a file of one data row: a float, a missing value,
      an integer and a text\<close>
  "mixed_store =
     model (load 2 (yields (read_csv_chunks [''x'', ''y'', ''n'', ''s''] 0
              [[[PyFloat (Finite False 3 (- 1)), NA, PyInt 42, PyStr ''abc'']]])) init_app)"

definition labelled_app :: app where
  \<comment> \<open>the application after the load of a file of 1104 lines: the header \<^verbatim>\<open>name\<close>, the
      rows \<^verbatim>\<open>1030,abc\<close>, \<^verbatim>\<open>1020,xyz\<close> and \<^verbatim>\<open>1010,abd\<close>, and 1100 blank lines\<close>
  "labelled_app =
     load 1104 (yields (read_csv_labelled_chunks [''name'']
                  [[(1030, [PyStr ''abc'']), (1020, [PyStr ''xyz'']), (1010, [PyStr ''abd''])]]))
       init_app"

definition two_row_steps :: "(reader_step \<times> bool) list" where
  \<comment> \<open>the one chunk of a file of three lines: the header and two data rows\<close>
  "two_row_steps = yields (read_csv_chunks [''a''] 0 [[[PyInt 1], [PyInt 2]]])"

section \<open>Rounding to the nearest double\<close>

lemma log2_floor_bounds:
  "1 \<le> n \<Longrightarrow> 0 \<le> log2_floor n \<and> 2 ^ nat (log2_floor n) \<le> n \<and> n < 2 * 2 ^ nat (log2_floor n)"
proof (induction n rule: log2_floor.induct)
  case (1 n)
  show ?case
  proof (cases "n < 2")
    case True
    then have "n = 1" using 1(2) by simp
    then show ?thesis by (simp add: log2_floor.simps)
  next
    case False
    then have h: "1 \<le> n div 2" by simp
    note IH = 1(1) [OF False h]
    let ?l = "log2_floor (n div 2)"
    have l: "log2_floor n = 1 + ?l"
      using False by (subst log2_floor.simps) simp
    have p: "(2::int) ^ nat (1 + ?l) = 2 * 2 ^ nat ?l"
      using IH by (simp add: nat_add_distrib)
    have lo: "2 * 2 ^ nat ?l \<le> n"
      using IH by linarith
    have hi: "n < 2 * (2 * 2 ^ nat ?l)"
      using IH by linarith
    show ?thesis
      unfolding l p using IH lo hi by simp
  qed
qed

lemma powi_nat: "0 \<le> k \<Longrightarrow> (2::rat) powi k = 2 ^ nat k"
  by (simp add: power_int_def)

lemma powi_Suc: "(2::rat) powi (k + 1) = 2 * 2 powi k"
  by (simp add: power_int_add)

lemma binade_bounds:
  assumes "0 < x"
  shows "2 powi binade x \<le> x \<and> x < 2 powi (binade x + 1)"
proof -
  obtain n d where q: "quotient_of x = (n, d)"
    by (cases "quotient_of x")
  have d: "0 < d" using quotient_of_denom_pos [OF q] .
  have x: "x = of_int n / of_int d" using quotient_of_div [OF q] .
  have n: "0 < n"
    using assms d unfolding x by (simp add: zero_less_divide_iff)
  let ?a = "log2_floor n" and ?b = "log2_floor d"
  have A: "0 \<le> ?a \<and> 2 ^ nat ?a \<le> n \<and> n < 2 * 2 ^ nat ?a"
    using log2_floor_bounds [of n] n by simp
  have B: "0 \<le> ?b \<and> 2 ^ nat ?b \<le> d \<and> d < 2 * 2 ^ nat ?b"
    using log2_floor_bounds [of d] d by simp
  have An: "(2::rat) powi ?a \<le> of_int n" "of_int n < 2 * (2::rat) powi ?a"
  proof -
    have "(of_int (2 ^ nat ?a) :: rat) \<le> of_int n"
      using A by (simp only: of_int_le_iff)
    then show "(2::rat) powi ?a \<le> of_int n"
      using A by (simp add: powi_nat)
    have "(of_int n :: rat) < of_int (2 * 2 ^ nat ?a)"
      using A by (simp only: of_int_less_iff)
    then show "of_int n < 2 * (2::rat) powi ?a"
      using A by (simp add: powi_nat)
  qed
  have Bd: "(2::rat) powi ?b \<le> of_int d" "of_int d < 2 * (2::rat) powi ?b"
  proof -
    have "(of_int (2 ^ nat ?b) :: rat) \<le> of_int d"
      using B by (simp only: of_int_le_iff)
    then show "(2::rat) powi ?b \<le> of_int d"
      using B by (simp add: powi_nat)
    have "(of_int d :: rat) < of_int (2 * 2 ^ nat ?b)"
      using B by (simp only: of_int_less_iff)
    then show "of_int d < 2 * (2::rat) powi ?b"
      using B by (simp add: powi_nat)
  qed
  let ?k = "?a - ?b"
  have pk: "(2::rat) powi ?k = 2 powi ?a / 2 powi ?b"
    by (simp add: power_int_diff)
  have pa: "0 < (2::rat) powi ?a" and pb: "0 < (2::rat) powi ?b" and dq: "0 < (of_int d :: rat)"
    using d by simp_all
  have up: "x < 2 powi (?k + 1)"
  proof -
    have "of_int n * 2 powi ?b < (2 * (2::rat) powi ?a) * of_int d"
      using An(2) Bd(1) pa pb dq
      by (meson less_le_trans mult_le_cancel_left_pos mult_less_cancel_right_pos
          mult_pos_pos zero_less_numeral)
    then have "of_int n / of_int d < (2 * (2::rat) powi ?a) / 2 powi ?b"
      using pb dq by (simp add: field_simps)
    then show ?thesis
      unfolding x powi_Suc pk by simp
  qed
  have low: "2 powi (?k - 1) < x"
  proof -
    have "(2::rat) powi ?a * of_int d < of_int n * (2 * 2 powi ?b)"
      using An(1) Bd(2) pa pb dq n
      by (meson le_less_trans less_le_trans mult_le_cancel_right_pos mult_less_cancel_left_pos
          of_int_0_less_iff)
    then have "(2::rat) powi ?a / (2 * 2 powi ?b) < of_int n / of_int d"
      using pb dq by (simp add: field_simps)
    moreover have "(2::rat) powi (?k - 1) = 2 powi ?a / (2 * 2 powi ?b)"
      by (simp add: power_int_diff)
    ultimately show ?thesis
      unfolding x by simp
  qed
  show ?thesis
  proof (cases "2 powi ?k \<le> x")
    case True
    then have "binade x = ?k"
      by (simp add: binade_def q)
    then show ?thesis using True up by simp
  next
    case False
    then have "binade x = ?k - 1"
      by (simp add: binade_def q)
    then show ?thesis using False low by simp
  qed
qed


lemma binade_mono:
  assumes "0 < x" and "x \<le> y"
  shows "binade x \<le> binade y"
proof -
  have "2 powi binade x \<le> x" using binade_bounds [OF assms(1)] by simp
  also have "x \<le> y" by fact
  also have "y < 2 powi (binade y + 1)" using binade_bounds [of y] assms by simp
  finally have "(2::rat) powi binade x < 2 powi (binade y + 1)" .
  then have "binade x < binade y + 1"
    by (metis linorder_not_less one_le_numeral power_int_increasing)
  then show ?thesis by simp
qed

lemma round_half_even_bounds: "\<lfloor>x\<rfloor> \<le> round_half_even x \<and> round_half_even x \<le> \<lfloor>x\<rfloor> + 1"
  by (simp add: round_half_even_def Let_def)

lemma round_half_even_of_int [simp]: "round_half_even (of_int k) = k"
  by (simp add: round_half_even_def)

lemma round_half_even_mono:
  assumes "x \<le> y"
  shows "round_half_even x \<le> round_half_even y"
proof (cases "\<lfloor>x\<rfloor> = \<lfloor>y\<rfloor>")
  case True
  have "x - of_int \<lfloor>x\<rfloor> \<le> y - of_int \<lfloor>y\<rfloor>"
    using assms True by simp
  then show ?thesis
    using True by (auto simp: round_half_even_def Let_def)
next
  case False
  then have "\<lfloor>x\<rfloor> < \<lfloor>y\<rfloor>"
    using floor_mono [OF assms] by simp
  then have "round_half_even x \<le> \<lfloor>y\<rfloor>"
    using round_half_even_bounds [of x] by linarith
  then show ?thesis
    using round_half_even_bounds [of y] by linarith
qed

lemma rn_pos:
  assumes "0 < x"
  shows "rn x = of_int (round_half_even (x / 2 powi (binade x - 52))) * 2 powi (binade x - 52)"
  using assms by (simp add: rn_def Let_def)

lemma mantissa_bounds:
  assumes "0 < x"
  shows "2 ^ 52 \<le> round_half_even (x / 2 powi (binade x - 52)) \<and>
         round_half_even (x / 2 powi (binade x - 52)) \<le> 2 ^ 53"
proof -
  let ?e = "binade x - 52"
  have pe: "0 < (2::rat) powi ?e" by simp
  have k: "(2::rat) powi binade x = 2 powi ?e * 2 ^ 52"
    using power_int_add [of "2::rat" ?e 52] by simp
  have k1: "(2::rat) powi (binade x + 1) = 2 powi ?e * 2 ^ 53"
    using power_int_add [of "2::rat" ?e 53] by (simp add: add.commute mult.commute)
  have lo: "of_int (2 ^ 52) \<le> x / 2 powi ?e"
    using binade_bounds [OF assms] pe unfolding k by (simp add: field_simps)
  have hi: "x / 2 powi ?e \<le> of_int (2 ^ 53)"
    using binade_bounds [OF assms] pe unfolding k1 by (simp add: field_simps)
  show ?thesis
    using round_half_even_mono [OF lo] round_half_even_mono [OF hi]
    unfolding round_half_even_of_int by simp
qed

lemma rn_bounds:
  assumes "0 < x"
  shows "2 powi binade x \<le> rn x \<and> rn x \<le> 2 powi (binade x + 1)"
proof -
  let ?e = "binade x - 52"
  let ?m = "round_half_even (x / 2 powi ?e)"
  have pe: "0 < (2::rat) powi ?e" by simp
  have k: "(2::rat) powi binade x = 2 ^ 52 * 2 powi ?e"
    using power_int_add [of "2::rat" ?e 52] by simp
  have k1: "(2::rat) powi (binade x + 1) = 2 ^ 53 * 2 powi ?e"
    using power_int_add [of "2::rat" ?e 53] by (simp add: add.commute mult.commute)
  have "(of_int (2 ^ 52) :: rat) \<le> of_int ?m" "(of_int ?m :: rat) \<le> of_int (2 ^ 53)"
    using mantissa_bounds [OF assms] by (simp_all only: of_int_le_iff)
  then have "(2 ^ 52 :: rat) \<le> of_int ?m" "(of_int ?m :: rat) \<le> 2 ^ 53"
    by simp_all
  then have "2 ^ 52 * (2::rat) powi ?e \<le> of_int ?m * 2 powi ?e"
    "of_int ?m * 2 powi ?e \<le> 2 ^ 53 * (2::rat) powi ?e"
    using pe by (simp_all only: mult_le_cancel_right_pos)
  then show ?thesis
    unfolding rn_pos [OF assms] k k1 by simp
qed

lemma rn_mono_pos:
  assumes "0 < x" and "x \<le> y"
  shows "rn x \<le> rn y"
proof (cases "binade x = binade y")
  case True
  have y: "0 < y" using assms by simp
  let ?e = "binade y - 52"
  have pe: "0 < (2::rat) powi ?e" by simp
  have "x / 2 powi ?e \<le> y / 2 powi ?e"
    using assms(2) pe by (simp add: divide_right_mono)
  then have "round_half_even (x / 2 powi ?e) \<le> round_half_even (y / 2 powi ?e)"
    by (rule round_half_even_mono)
  then have "(of_int (round_half_even (x / 2 powi ?e)) :: rat) \<le>
             of_int (round_half_even (y / 2 powi ?e))"
    by (simp only: of_int_le_iff)
  then show ?thesis
    unfolding rn_pos [OF assms(1)] rn_pos [OF y] True using pe
    by (simp only: mult_le_cancel_right_pos)
next
  case False
  have y: "0 < y" using assms by simp
  from False have "binade x + 1 \<le> binade y"
    using binade_mono [OF assms] by simp
  then have "(2::rat) powi (binade x + 1) \<le> 2 powi binade y"
    by (rule power_int_increasing) simp
  then show ?thesis
    using rn_bounds [OF assms(1)] rn_bounds [OF y] by linarith
qed

lemma rn_zero [simp]: "rn 0 = 0"
  by (simp add: rn_def)

lemma rn_pos_pos: "0 < x \<Longrightarrow> 0 < rn x"
  using rn_bounds [of x] zero_less_power_int [of "2::rat" "binade x"] by linarith

lemma rn_mono: "0 \<le> x \<Longrightarrow> x \<le> y \<Longrightarrow> rn x \<le> rn y"
proof (cases "x = 0")
  case True
  assume "x \<le> y"
  then show ?thesis
    using True rn_pos_pos [of y] by (cases "y = 0") (simp_all add: less_eq_rat_def)
next
  case False
  assume "0 \<le> x" "x \<le> y"
  then show ?thesis
    using False rn_mono_pos [of x y] by simp
qed

lemma rn_one: "rn 1 = 1"
  by code_simp

lemma rn_hundred: "rn 100 = 100"
  by code_simp

lemma py_int_mono: "0 \<le> x \<Longrightarrow> x \<le> y \<Longrightarrow> py_int x \<le> py_int y"
  by (simp add: py_int_def floor_mono)

lemma percent_eq: "percent c t = py_int (rn (rn (of_int c / of_int t) * 100))"
  by (simp add: percent_def py_mul_def rn_hundred)

lemma percent_mono:
  assumes "0 < t" and "0 \<le> c" and "c \<le> c'"
  shows "percent c t \<le> percent c' t"
proof -
  have t: "0 < (of_int t :: rat)" using assms(1) by simp
  have 0: "0 \<le> (of_int c :: rat) / of_int t" using assms(1,2) by simp
  have "(of_int c :: rat) / of_int t \<le> of_int c' / of_int t"
    using assms(3) t by (simp add: divide_right_mono)
  then have 1: "rn (of_int c / of_int t) \<le> rn (of_int c' / of_int t)"
    using rn_mono [OF 0] by simp
  have 2: "0 \<le> rn (of_int c / of_int t)"
    using rn_mono [of 0 "of_int c / of_int t"] 0 by simp
  have "rn (rn (of_int c / of_int t) * 100) \<le> rn (rn (of_int c' / of_int t) * 100)"
    using 1 2 by (intro rn_mono) simp_all
  moreover have "0 \<le> rn (rn (of_int c / of_int t) * 100)"
    using rn_mono [of 0 "rn (of_int c / of_int t) * 100"] 2 by simp
  ultimately show ?thesis
    unfolding percent_eq by (intro py_int_mono)
qed

lemma percent_zero: "percent 0 t = 0"
  by (simp add: percent_eq py_int_def)

lemma percent_full: "0 < t \<Longrightarrow> percent t t = 100"
  by (simp add: percent_eq rn_one rn_hundred py_int_def)

lemma percent_range:
  assumes "0 < t" and "0 \<le> c" and "c \<le> t"
  shows "0 \<le> percent c t \<and> percent c t \<le> 100"
  using percent_mono [OF assms(1), of 0 c] percent_mono [OF assms(1,2,3)] assms
  by (simp add: percent_zero percent_full)

section \<open>Offsets and windows\<close>


text \<open>
  C2. For every requested offset, negative or beyond the total included, the offset
  stored by \<open>set_offset\<close> is the request clamped to \<open>[0, max 0 (total - W)]\<close>, and
  setting the raw request gives the same store as setting the clamped request.
\<close>

theorem set_offset_clamps:
  "offset (set_offset r m) = clamp r 0 (max 0 (total_rows m - VISIBLE_ROWS)) \<and>
   set_offset r m = set_offset (clamp r 0 (max 0 (total_rows m - VISIBLE_ROWS))) m"
proof -
  let ?hi = "total_rows m - VISIBLE_ROWS"
  have stored: "offset (set_offset r m) = max 0 (min r ?hi)"
    by (simp add: set_offset_def update_display_data_def Let_def)
  have same: "max 0 (min (clamp r 0 (max 0 ?hi)) ?hi) = max 0 (min r ?hi)"
    by (simp add: clamp_def max_def min_def)
  have cl: "clamp r 0 (max 0 ?hi) = max 0 (min r ?hi)"
    by (simp add: clamp_def max_def min_def)
  show ?thesis
    using stored same cl by (simp add: set_offset_def)
qed





section \<open>Patterns, masks and result positions\<close>

lemma match_here_plain:
  "match_here (map Lit q) s \<longleftrightarrow> prefix (map to_lower q) (map to_lower s)"
proof (induction q arbitrary: s)
  case Nil
  show ?case by simp
next
  case (Cons x q)
  show ?case by (cases s) (simp_all add: Cons.IH)
qed

lemma re_search_plain:
  "re_search (map Lit q) s \<longleftrightarrow> sublist (map to_lower q) (map to_lower s)"
proof (induction s)
  case Nil
  show ?case by (cases q) simp_all
next
  case (Cons c s)
  show ?case
    using Cons.IH by (simp add: match_here_plain sublist_Cons_right)
qed

lemma plain_atoms: "plain q \<Longrightarrow> map re_atom_of q = map Lit q"
  by (induction q) (auto simp: plain_def re_atom_of_def re_special_def)

lemma re_compile_plain: "plain q \<Longrightarrow> re_compile rt q = Inr (re_search (map Lit q))"
proof -
  assume p: "plain q"
  then have "list_all (\<lambda>c. c = CHR ''.'' \<or> \<not> re_special c) q"
    by (simp add: plain_def list_all_iff)
  then show ?thesis
    unfolding re_compile_def plain_atoms [OF p] by simp
qed

lemma or_columns_compiled:
  assumes "re_compile rt t = Inr f" and "length acc = length (rows d)"
  shows "or_columns rt t d js acc =
         Inr (map2 (\<lambda>b r. b \<or> list_ex (\<lambda>j. cell_matches f (astype_str rt (r ! j))) js)
                acc (rows d))"
  using assms(2)
proof (induction js arbitrary: acc)
  case Nil
  have "map2 (\<lambda>b r. b) acc (rows d) = acc"
    using Nil by (simp add: map_fst_zip case_prod_unfold)
  then show ?case
    by simp
next
  case (Cons j js)
  let ?m = "map (\<lambda>c. cell_matches f (astype_str rt c)) (column_cells d j)"
  have len: "length (map2 (\<or>) acc ?m) = length (rows d)"
    using Cons.prems by (simp add: column_cells_def)
  have step: "or_columns rt t d (j # js) acc = or_columns rt t d js (map2 (\<or>) acc ?m)"
    using assms(1) by (simp add: str_contains_def)
  show ?case
    unfolding step Cons.IH [OF len]
    using Cons.prems
    by (auto intro!: nth_equalityI simp: column_cells_def)
qed

lemma or_columns_error:
  assumes "re_compile rt t = Inl e" and "js \<noteq> []"
  shows "or_columns rt t d js acc = Inl e"
  using assms by (cases js) (simp_all add: str_contains_def)

lemma filter_positions_sorted:
  "sorted_wrt (<) (map fst (filter snd (zip (map int [0..<n]) m)))"
proof -
  have "sorted_wrt (<) (map int [0..<n])"
    by (simp add: sorted_wrt_map sorted_wrt_iff_nth_less)
  then have "sorted_wrt (<) (map fst (zip (map int [0..<n]) m))"
    by (metis map_fst_zip_take sorted_wrt_take)
  then have "sorted_wrt (\<lambda>p q. fst p < fst q) (zip (map int [0..<n]) m)"
    by (simp add: sorted_wrt_map)
  then have "sorted_wrt (\<lambda>p q. fst p < fst q) (filter snd (zip (map int [0..<n]) m))"
    by (rule sorted_wrt_filter)
  then show ?thesis
    by (simp add: sorted_wrt_map)
qed

lemma filter_positions_range:
  "i \<in> set (map fst (filter snd (zip (map int [0..<n]) m))) \<Longrightarrow> 0 \<le> i \<and> i < int n"
  by (auto dest!: set_zip_leftD)

lemma filter_positions_mask:
  "map fst (filter snd (zip (map int [0..<length m]) m)) =
   map int (filter (\<lambda>i. m ! i) [0..<length m])"
proof (induction m rule: rev_induct)
  case Nil
  show ?case by simp
next
  case (snoc b ms)
  have "filter (\<lambda>i. (ms @ [b]) ! i) [0..<length ms] = filter (\<lambda>i. ms ! i) [0..<length ms]"
    by (rule filter_cong) (simp_all add: nth_append)
  then show ?case
    using snoc.IH by (simp add: nth_append)
qed

section \<open>Loads\<close>

lemma progress_of_percent: "t \<noteq> 0 \<Longrightarrow> progress_of c t = Inr (percent c t)"
  by (simp add: progress_of_def py_truediv_def percent_def)

lemma run_loop_yields:
  assumes "t \<noteq> 0"
  shows "run_loop t c (yields chs @ rest) =
         batch_events t c chs @ run_loop t (c + sum_list (map len chs)) rest"
proof (induction chs arbitrary: c)
  case Nil
  show ?case by (simp add: yields_def)
next
  case (Cons ch chs)
  have "run_loop t c (yields (ch # chs) @ rest) =
        DataLoaded ch (c + len ch) # ProgressUpdate (percent (c + len ch) t) #
        run_loop t (c + len ch) (yields chs @ rest)"
    using assms by (simp add: yields_def progress_of_percent)
  then show ?case
    by (simp add: Cons.IH add.assoc)
qed

lemma frame_ok_append:
  fixes b :: "cell list list"
  assumes ok: "frame_ok hdr d" and hdr: "hdr \<noteq> []"
    and ch: "ch = \<lparr>columns = hdr,
                   index = map int [length (rows d)..<length (rows d) + length b], rows = b\<rparr>"
    and d': "d' = (if df_empty d then ch else pd_concat d ch)"
  shows "rows d' = rows d @ b \<and> frame_ok hdr d' \<and> columns d' = hdr"
proof (cases "df_empty d")
  case True
  then have e: "rows d = []"
    using ok hdr by (auto simp: df_empty_def frame_ok_def empty_frame_def)
  show ?thesis
    using True e by (simp add: d' ch frame_ok_def)
next
  case False
  then have c: "columns d = hdr"
    using ok by (auto simp: df_empty_def frame_ok_def empty_frame_def)
  have i: "index d = map int [0..<length (rows d)]"
    using ok by (simp add: frame_ok_def)
  have u: "[0..<length (rows d) + length b] =
           [0..<length (rows d)] @ [length (rows d)..<length (rows d) + length b]"
    by (rule upt_add_eq_append) simp
  show ?thesis
    using False c i u by (simp add: d' ch pd_concat_def frame_ok_def)
qed


lemma update_progress_model: "model (update_progress v a) = model a"
  by (simp add: update_progress_def Let_def)

lemma update_progress_frame:
  "dialogs (update_progress v a) = dialogs a \<and>
   current_index (update_progress v a) = current_index a"
  by (simp add: update_progress_def Let_def)

lemma update_data_frame:
  "model (update_data ch c a) = update_chunk ch c (model a) \<and>
   dialogs (update_data ch c a) = dialogs a \<and>
   current_index (update_data ch c a) = current_index a"
  by (simp add: update_data_def Let_def)

lemma update_chunk_frame:
  "df (update_chunk ch c m) = (if df_empty (df m) then ch else pd_concat (df m) ch) \<and>
   total_rows (update_chunk ch c m) = total_rows m \<and>
   offset (update_chunk ch c m) = offset m"
  by (simp add: update_chunk_def update_display_data_def Let_def)

lemma deliver_batches:
  assumes hdr: "hdr \<noteq> []"
  shows "frame_ok hdr (df (model a)) \<Longrightarrow>
         rows (df (model (foldl deliver a
            (batch_events t c (read_csv_chunks hdr (length (rows (df (model a)))) bs))))) =
           rows (df (model a)) @ concat bs \<and>
         frame_ok hdr (df (model (foldl deliver a
            (batch_events t c (read_csv_chunks hdr (length (rows (df (model a)))) bs))))) \<and>
         (bs \<noteq> [] \<longrightarrow> columns (df (model (foldl deliver a
            (batch_events t c (read_csv_chunks hdr (length (rows (df (model a)))) bs))))) = hdr) \<and>
         total_rows (model (foldl deliver a
            (batch_events t c (read_csv_chunks hdr (length (rows (df (model a)))) bs)))) =
           total_rows (model a) \<and>
         offset (model (foldl deliver a
            (batch_events t c (read_csv_chunks hdr (length (rows (df (model a)))) bs)))) =
           offset (model a) \<and>
         dialogs (foldl deliver a
            (batch_events t c (read_csv_chunks hdr (length (rows (df (model a)))) bs))) =
           dialogs a \<and>
         current_index (foldl deliver a
            (batch_events t c (read_csv_chunks hdr (length (rows (df (model a)))) bs))) =
           current_index a"
proof (induction bs arbitrary: a c)
  case Nil
  then show ?case by simp
next
  case (Cons b bs)
  let ?n = "length (rows (df (model a)))"
  let ?ch = "\<lparr>columns = hdr, index = map int [?n..<?n + length b], rows = b\<rparr>"
  let ?c' = "c + len ?ch"
  let ?a1 = "update_progress (percent ?c' t) (update_data ?ch ?c' a)"
  have d1: "df (model ?a1) = (if df_empty (df (model a)) then ?ch else pd_concat (df (model a)) ?ch)"
    by (simp add: update_progress_model update_data_frame update_chunk_frame)
  have ap: "rows (df (model ?a1)) = rows (df (model a)) @ b \<and> frame_ok hdr (df (model ?a1)) \<and>
            columns (df (model ?a1)) = hdr"
    using frame_ok_append [OF Cons.prems hdr refl d1] .
  have len1: "length (rows (df (model ?a1))) = ?n + length b"
    using ap by simp
  have unfold: "foldl deliver a (batch_events t c (read_csv_chunks hdr ?n (b # bs))) =
                foldl deliver ?a1
                  (batch_events t ?c' (read_csv_chunks hdr (length (rows (df (model ?a1)))) bs))"
    unfolding len1 by simp
  have fr: "total_rows (model ?a1) = total_rows (model a) \<and> offset (model ?a1) = offset (model a) \<and>
            dialogs ?a1 = dialogs a \<and> current_index ?a1 = current_index a"
    by (simp add: update_progress_model update_progress_frame update_data_frame update_chunk_frame)
  have ih: "frame_ok hdr (df (model ?a1))"
    using ap by simp
  note IH = Cons.IH [OF ih, of ?c']
  have col: "columns (df (model (foldl deliver ?a1
               (batch_events t ?c' (read_csv_chunks hdr (length (rows (df (model ?a1)))) bs))))) = hdr"
  proof (cases "bs = []")
    case True
    then show ?thesis using ap by simp
  next
    case False
    then show ?thesis using IH by simp
  qed
  show ?case
    unfolding unfold using IH ap fr col by simp
qed

lemma load_file_ok:
  "model (load_file (Inr t) a) = set_total_rows (t - 1) init_model \<and>
   dialogs (load_file (Inr t) a) = dialogs a \<and>
   current_index (load_file (Inr t) a) = 0"
  by (simp add: load_file_def Let_def)

lemma failures_batch_events: "failures (batch_events t c chs) = []"
  by (induction chs arbitrary: c) (simp_all add: failures_def)

lemma loaded_batches_batch_events: "loaded_batches (batch_events t c chs) = chs"
  by (induction chs arbitrary: c) (simp_all add: loaded_batches_def)

lemma load_batches:
  fixes bs :: "cell list list list" and a :: app
  assumes t: "t \<noteq> 0" and hdr: "hdr \<noteq> []"
  defines "A \<equiv> foldl deliver (update_progress 0 (load_file (Inr t) a))
                  (batch_events t 0 (read_csv_chunks hdr 0 bs))"
  shows "load t (yields (read_csv_chunks hdr 0 bs) @ rest) a =
           foldl deliver A (run_loop t (sum_list (map len (read_csv_chunks hdr 0 bs))) rest)"
    and "rows (df (model A)) = concat bs"
    and "frame_ok hdr (df (model A))"
    and "bs \<noteq> [] \<Longrightarrow> columns (df (model A)) = hdr"
    and "total_rows (model A) = t - 1"
    and "offset (model A) = 0"
    and "dialogs A = dialogs a"
    and "current_index A = 0"
proof -
  let ?a0 = "update_progress 0 (load_file (Inr t) a)"
  have m0: "model ?a0 = set_total_rows (t - 1) init_model"
    by (simp add: update_progress_model load_file_ok)
  have r0: "rows (df (model ?a0)) = []"
    by (simp add: m0 set_total_rows_def init_model_def empty_frame_def)
  have f0: "frame_ok hdr (df (model ?a0))"
    by (simp add: m0 set_total_rows_def init_model_def empty_frame_def frame_ok_def)
  have z: "length (rows (df (model ?a0))) = 0"
    using r0 by simp
  note D = deliver_batches [OF hdr f0, of t 0 bs, unfolded z, folded A_def]
  show "load t (yields (read_csv_chunks hdr 0 bs) @ rest) a =
           foldl deliver A (run_loop t (sum_list (map len (read_csv_chunks hdr 0 bs))) rest)"
    using run_loop_yields [OF t, of 0 "read_csv_chunks hdr 0 bs" rest]
    by (simp add: load_def run_def A_def)
  show "rows (df (model A)) = concat bs" using D r0 by simp
  show "frame_ok hdr (df (model A))" using D by simp
  show "bs \<noteq> [] \<Longrightarrow> columns (df (model A)) = hdr" using D by simp
  show "total_rows (model A) = t - 1"
    using D by (simp add: m0 set_total_rows_def)
  show "offset (model A) = 0"
    using D by (simp add: m0 set_total_rows_def init_model_def)
  show "dialogs A = dialogs a"
    using D by (simp add: update_progress_frame load_file_ok)
  show "current_index A = 0"
    using D by (simp add: update_progress_frame load_file_ok)
qed

text \<open>
  C7. A load in which a batch fails to parse, after the batches \<open>bs\<close> were read: the
  loader emits the signals of those batches and then one failure signal, whatever the file
  holds after the failure (\<open>later\<close>); exactly one failure is emitted, the batches
  delivered are those read before it, and after the load the dataset holds exactly their
  rows, in order. The failure is shown once and the status says so.
\<close>

theorem parse_failure_aborts:
  assumes "0 < t" and "hdr \<noteq> []"
  shows "run (Inr t) (yields (read_csv_chunks hdr 0 bs) @ (Raise e, r) # later) =
           ProgressUpdate 0 # batch_events t 0 (read_csv_chunks hdr 0 bs) @ [ErrorOccurred e] \<and>
         failures (run (Inr t) (yields (read_csv_chunks hdr 0 bs) @ (Raise e, r) # later)) = [e] \<and>
         loaded_batches (run (Inr t) (yields (read_csv_chunks hdr 0 bs) @ (Raise e, r) # later)) =
           read_csv_chunks hdr 0 bs \<and>
         rows (df (model (load t (yields (read_csv_chunks hdr 0 bs) @ (Raise e, r) # later) a))) =
           concat bs \<and>
         dialogs (load t (yields (read_csv_chunks hdr 0 bs) @ (Raise e, r) # later) a) =
           dialogs a @ [ErrorLoadingData e] \<and>
         status (load t (yields (read_csv_chunks hdr 0 bs) @ (Raise e, r) # later) a) =
           ErrorLoadingFile"
proof -
  have t: "t \<noteq> 0" using assms(1) by simp
  let ?steps = "yields (read_csv_chunks hdr 0 bs) @ (Raise e, r) # later"
  have ev: "run (Inr t) ?steps =
            ProgressUpdate 0 # batch_events t 0 (read_csv_chunks hdr 0 bs) @ [ErrorOccurred e]"
    using run_loop_yields [OF t, of 0 "read_csv_chunks hdr 0 bs" "(Raise e, r) # later"]
    by (simp add: run_def)
  have fl: "failures (run (Inr t) ?steps) = [e]"
    unfolding ev using failures_batch_events [of t 0 "read_csv_chunks hdr 0 bs"]
    by (simp add: failures_def)
  have lb: "loaded_batches (run (Inr t) ?steps) = read_csv_chunks hdr 0 bs"
    unfolding ev using loaded_batches_batch_events [of t 0 "read_csv_chunks hdr 0 bs"]
    by (simp add: loaded_batches_def)
  note L = load_batches [OF t assms(2)]
  have fin: "load t ?steps a =
             handle_error e (foldl deliver (update_progress 0 (load_file (Inr t) a))
               (batch_events t 0 (read_csv_chunks hdr 0 bs)))"
    by (simp add: L(1))
  have rw: "rows (df (model (load t ?steps a))) = concat bs"
    unfolding fin by (simp add: handle_error_def L(2))
  have dl: "dialogs (load t ?steps a) = dialogs a @ [ErrorLoadingData e]"
    unfolding fin by (simp add: handle_error_def L(7))
  have st: "status (load t ?steps a) = ErrorLoadingFile"
    unfolding fin by (simp add: handle_error_def)
  show ?thesis
    using ev fl lb rw dl st by blast
qed

text \<open>
  The theorem on a file of seven lines whose third batch is malformed: the two batches
  read before it stay, the batch after it is never delivered.
\<close>

theorem parse_failure_aborts_witness:
  "run (Inr 7) (yields (read_csv_chunks [''a''] 0 [three_rows, three_rows]) @
      (Raise ParserError, True) # yields (read_csv_chunks [''a''] 6 [three_rows])) =
     ProgressUpdate 0 # batch_events 7 0 (read_csv_chunks [''a''] 0 [three_rows, three_rows]) @
     [ErrorOccurred ParserError] \<and>
   rows (df (model (load 7 (yields (read_csv_chunks [''a''] 0 [three_rows, three_rows]) @
      (Raise ParserError, True) # yields (read_csv_chunks [''a''] 6 [three_rows])) init_app))) =
     three_rows @ three_rows \<and>
   dialogs (load 7 (yields (read_csv_chunks [''a''] 0 [three_rows, three_rows]) @
      (Raise ParserError, True) # yields (read_csv_chunks [''a''] 6 [three_rows])) init_app) =
     [ErrorLoadingData ParserError]"
proof -
  have h1: "(0::int) < 7" by simp
  have h2: "[''a''] \<noteq> []" by simp
  show ?thesis
    using parse_failure_aborts [OF h1 h2, of "[three_rows, three_rows]" ParserError True
        "yields (read_csv_chunks [''a''] 6 [three_rows])" init_app]
    by (simp add: init_app_def)
qed

section \<open>Searches\<close>

lemma offset_set_offset:
  "offset (set_offset r m) = clamp r 0 (max 0 (total_rows m - VISIBLE_ROWS))"
  by (simp add: set_offset_def update_display_data_def Let_def clamp_def max_def min_def)

lemma notes_app_eq:
  "notes_app =
     \<lparr>model =
        \<lparr>df = \<lparr>columns = [''name'', ''note''], index = [0, 1, 2],
                rows = [[PyStr ''abc'', NA], [PyStr ''f(x)'', PyInt 7],
                        [PyStr ''Nancy'', PyStr ''a.c'']]\<rparr>,
         display_df = \<lparr>columns = [''name'', ''note''], index = [0, 1, 2],
                rows = [[PyStr ''abc'', NA], [PyStr ''f(x)'', PyInt 7],
                        [PyStr ''Nancy'', PyStr ''a.c'']]\<rparr>,
         total_rows = 3, loaded_rows = 3, offset = 0, layout_changed = 1\<rparr>,
      status = LoadedSuccessfully, progress_value = 100, progress_visible = False,
      search_column = [''All Columns'', ''name'', ''note''], current_index = 0,
      dialogs = []\<rparr>"
  by code_simp

lemma search_mask_error:
  assumes "re_compile rt text = Inl e" and "columns d \<noteq> []"
  shows "search_mask rt text cidx d = Inl e"
proof -
  have "[0..<length (columns d)] \<noteq> []"
    using assms(2) by simp
  then have "or_columns rt text d [0..<length (columns d)] (replicate (length (rows d)) False) = Inl e"
    using or_columns_error [OF assms(1)] by blast
  then show ?thesis
    using assms by (simp add: search_mask_def str_contains_def)
qed

text \<open>
  C9 (as amended). A failure while the match predicate is evaluated (the query does not
  compile as a regular expression) ends the whole search: no row is reported, the status
  is the search error, and the store, its offset and its window are left as they were.
\<close>

theorem search_failure_aborts:
  assumes "text \<noteq> []" and "\<not> df_empty (df (model a))" and "re_compile rt text = Inl e"
  shows "result_indices rt text (current_index a - 1) (df (model a)) = Inl e \<and>
         search_data rt text a = a\<lparr>status := SearchError e\<rparr> \<and>
         model (search_data rt text a) = model a"
proof -
  have c: "columns (df (model a)) \<noteq> []"
    using assms(2) by (simp add: df_empty_def)
  have r: "result_indices rt text (current_index a - 1) (df (model a)) = Inl e"
    using search_mask_error [OF assms(3) c] by (simp add: result_indices_def)
  show ?thesis
    using assms(1,2) r by (simp add: search_data_def Let_def)
qed

text \<open>The theorem on the query \<open>f(\<close>, which does not compile.\<close>

theorem search_failure_aborts_witness:
  "search_data example_runtime ''f('' notes_app = notes_app\<lparr>status := SearchError ReError\<rparr> \<and>
   offset (model (search_data example_runtime ''f('' notes_app)) = offset (model notes_app)"
proof -
  have h1: "''f('' \<noteq> []" by simp
  have h2: "\<not> df_empty (df (model notes_app))"
    by (simp add: notes_app_eq df_empty_def)
  have h3: "re_compile example_runtime ''f('' = Inl ReError"
    by (simp add: re_compile_def re_special_def)
  show ?thesis
    using search_failure_aborts [OF h1 h2 h3] by simp
qed

text \<open>
  C9 as stated fails: on the query \<open>f(\<close> the predicate cannot be evaluated on any row; were
  every such row taken as not matching, the scan would end with no match. The search is
  aborted instead: there is no result sequence, and the status is the search error.
\<close>

theorem search_failure_counterexample:
  "result_indices example_runtime ''f('' (current_index notes_app - 1) (df (model notes_app)) =
     Inl ReError \<and>
   status (search_data example_runtime ''f('' notes_app) = SearchError ReError \<and>
   status (search_data example_runtime ''f('' notes_app) \<noteq> NoMatchesFound"
  by (simp add: notes_app_eq search_data_def result_indices_def search_mask_def df_empty_def
      str_contains_def column_cells_def re_compile_def re_special_def upt_rec)

text \<open>
  C8. A search that runs (the query is not empty and there is data) and finds no row
  leaves the store as it is, its offset and its window included, and reports that
  there are no matches.
\<close>

theorem search_no_match:
  assumes "text \<noteq> []" and "\<not> df_empty (df (model a))"
    and "result_indices rt text (current_index a - 1) (df (model a)) = Inr []"
  shows "search_data rt text a = a\<lparr>status := NoMatchesFound\<rparr> \<and>
         offset (model (search_data rt text a)) = offset (model a) \<and>
         display_df (model (search_data rt text a)) = display_df (model a) \<and>
         status (search_data rt text a) = NoMatchesFound"
  using assms by (simp add: search_data_def Let_def)

text \<open>The theorem on a query that no cell of the example contains.\<close>

theorem search_no_match_witness:
  "result_indices example_runtime ''zebra'' (current_index notes_app - 1) (df (model notes_app)) =
     Inr [] \<and>
   search_data example_runtime ''zebra'' notes_app = notes_app\<lparr>status := NoMatchesFound\<rparr> \<and>
   offset (model (search_data example_runtime ''zebra'' notes_app)) = 0"
proof -
  have h1: "''zebra'' \<noteq> []" by simp
  have h2: "\<not> df_empty (df (model notes_app))"
    by (simp add: notes_app_eq df_empty_def)
  have h3: "result_indices example_runtime ''zebra'' (current_index notes_app - 1)
              (df (model notes_app)) = Inr []"
    by code_simp
  show ?thesis
    using search_no_match [OF h1 h2 h3] h3 by (simp add: notes_app_eq)
qed

lemma cell_matches_plain:
  "cell_matches (re_search (map Lit q)) (astype_str rt c) = spec_field_matches rt q c"
  by (simp add: cell_matches_def spec_field_matches_def re_search_plain split: option.splits)


text \<open>
  A missing cell is matched against what \<^verbatim>\<open>astype(str)\<close> made of it: where it is still
  missing, \<^verbatim>\<open>na=False\<close> applies; where it became the text \<^verbatim>\<open>nan\<close>, it matches the
  queries that text contains.
\<close>

lemma missing_cell_stays_missing:
  "na_repr rt = None \<Longrightarrow> re_compile rt q = Inr f \<Longrightarrow> str_contains rt q [NA] = Inr [False]"
  by (simp add: str_contains_def cell_matches_def astype_str_def)

lemma missing_cell_as_text:
  "str_contains example_runtime ''na'' [NA] = Inr [True]"
  by code_simp

lemma map2_replicate_False:
  "map2 (\<lambda>b r. b \<or> P r) (replicate (length xs) False) xs = map P xs"
  by (rule nth_equalityI) simp_all

lemma search_mask_all_plain:
  assumes "plain q" and "\<not> (0 \<le> cidx \<and> cidx < int (length (columns d)))" and "columns d \<noteq> []"
  shows "search_mask rt q cidx d =
         Inr (map (\<lambda>r. list_ex (\<lambda>j. spec_field_matches rt q (r ! j)) [0..<length (columns d)])
                (rows d))"
proof -
  have "or_columns rt q d [0..<length (columns d)] (replicate (length (rows d)) False) =
        Inr (map2 (\<lambda>b r. b \<or> list_ex (\<lambda>j. cell_matches (re_search (map Lit q))
                     (astype_str rt (r ! j))) [0..<length (columns d)])
               (replicate (length (rows d)) False) (rows d))"
    by (rule or_columns_compiled [OF re_compile_plain [OF assms(1)]]) simp
  then show ?thesis
    using assms(2,3) by (auto simp: search_mask_def map2_replicate_False cell_matches_plain)
qed





lemma str_contains_length:
  "str_contains rt text cs = Inr m \<Longrightarrow> length m = length cs"
  by (auto simp: str_contains_def split: sum.splits)

lemma search_mask_length:
  assumes "search_mask rt text cidx d = Inr m"
  shows "length m = length (rows d)"
proof (cases "0 \<le> cidx \<and> cidx < int (length (columns d))")
  case True
  then have "str_contains rt text (column_cells d (nat cidx)) = Inr m"
    using assms by (simp add: search_mask_def)
  then show ?thesis
    using str_contains_length by (fastforce simp: column_cells_def)
next
  case False
  then have ne: "columns d \<noteq> []"
    and oc: "or_columns rt text d [0..<length (columns d)] (replicate (length (rows d)) False) = Inr m"
    using assms by (auto simp: search_mask_def split: if_splits)
  show ?thesis
  proof (cases "re_compile rt text")
    case (Inl e)
    have "[0..<length (columns d)] \<noteq> []"
      using ne by simp
    then show ?thesis
      using or_columns_error [OF Inl] oc by fastforce
  next
    case (Inr f)
    have "length (replicate (length (rows d)) False) = length (rows d)"
      by simp
    then show ?thesis
      using or_columns_compiled [OF Inr, of "replicate (length (rows d)) False" d] oc by auto
  qed
qed

lemma result_indices_positions:
  assumes wf: "index d = map int [0..<length (rows d)]"
    and res: "result_indices rt text cidx d = Inr res"
  shows "\<exists>m. search_mask rt text cidx d = Inr m \<and> length m = length (rows d) \<and>
             res = map int (filter (\<lambda>i. m ! i) [0..<length (rows d)])"
    and "sorted_wrt (<) res"
    and "list_all (\<lambda>i. 0 \<le> i \<and> i < len d) res"
proof -
  obtain m where m: "search_mask rt text cidx d = Inr m"
    and r: "res = map fst (filter snd (zip (index d) m))"
    using res by (auto simp: result_indices_def split: sum.splits)
  have l: "length m = length (rows d)"
    using search_mask_length [OF m] .
  have r': "res = map fst (filter snd (zip (map int [0..<length m]) m))"
    using r wf l by simp
  show "\<exists>m. search_mask rt text cidx d = Inr m \<and> length m = length (rows d) \<and>
             res = map int (filter (\<lambda>i. m ! i) [0..<length (rows d)])"
    using m l r' filter_positions_mask [of m] by auto
  show "sorted_wrt (<) res"
    unfolding r' by (rule filter_positions_sorted)
  show "list_all (\<lambda>i. 0 \<le> i \<and> i < len d) res"
    unfolding r' list_all_iff len_def l [symmetric]
    using filter_positions_range by blast
qed

text \<open>
  On a dataset whose index labels are the row positions, as after the load of every file
  whose data rows have as many fields as its header (\<open>load_batches\<close>), a search with a
  non-empty result returns the ascending sequence of the positions of the rows the mask
  selects, sets the offset to \<open>max 0 (first - 5)\<close> through \<open>set_offset\<close>, whose clamp
  applies, and reports the number of matches.
\<close>

lemma search_repositions:
  assumes "index (df (model a)) = map int [0..<length (rows (df (model a)))]"
    and "text \<noteq> []" and "\<not> df_empty (df (model a))"
    and "result_indices rt text (current_index a - 1) (df (model a)) = Inr (first_result # others)"
  shows "sorted_wrt (<) (first_result # others) \<and>
         list_all (\<lambda>i. 0 \<le> i \<and> i < len (df (model a))) (first_result # others) \<and>
         (\<exists>m. search_mask rt text (current_index a - 1) (df (model a)) = Inr m \<and>
              first_result # others =
                map int (filter (\<lambda>i. m ! i) [0..<length (rows (df (model a)))])) \<and>
         search_data rt text a =
           a\<lparr>model := set_offset (max 0 (first_result - 5)) (model a),
             status := FoundMatches (length (first_result # others))\<rparr> \<and>
         offset (model (search_data rt text a)) =
           clamp (max 0 (first_result - 5)) 0 (max 0 (total_rows (model a) - VISIBLE_ROWS))"
proof -
  note P = result_indices_positions [OF assms(1) assms(4)]
  have s: "search_data rt text a =
           a\<lparr>model := set_offset (max 0 (first_result - 5)) (model a),
             status := FoundMatches (length (first_result # others))\<rparr>"
    using assms(2,3,4) by (simp add: search_data_def Let_def)
  have o: "offset (model (search_data rt text a)) =
           clamp (max 0 (first_result - 5)) 0 (max 0 (total_rows (model a) - VISIBLE_ROWS))"
    unfolding s by (simp add: offset_set_offset)
  obtain m where m: "search_mask rt text (current_index a - 1) (df (model a)) = Inr m \<and>
      first_result # others = map int (filter (\<lambda>i. m ! i) [0..<length (rows (df (model a)))])"
    using P(1) by auto
  have e: "\<exists>m. search_mask rt text (current_index a - 1) (df (model a)) = Inr m \<and>
      first_result # others = map int (filter (\<lambda>i. m ! i) [0..<length (rows (df (model a)))])"
    using m by (rule exI)
  show ?thesis
    by (intro conjI) (fact P(2) P(3) e s o)+
qed


lemma filter_eq_upt: "k < n \<Longrightarrow> filter (\<lambda>i. i = k) [0..<n] = [k]"
proof (induction n)
  case 0
  then show ?case by simp
next
  case (Suc n)
  show ?case
  proof (cases "k = n")
    case True
    have "filter (\<lambda>i. i = n) [0..<n] = []"
      by (simp add: filter_empty_conv)
    then show ?thesis using True by simp
  next
    case False
    then have "k < n" using Suc.prems by simp
    then show ?thesis using Suc.IH False by simp
  qed
qed

lemma haystack_app_state:
  "rows (df (model (haystack_app n k))) = haystack n k \<and>
   index (df (model (haystack_app n k))) = map int [0..<n] \<and>
   columns (df (model (haystack_app n k))) = [''text''] \<and>
   total_rows (model (haystack_app n k)) = int n \<and>
   offset (model (haystack_app n k)) = 0 \<and>
   current_index (haystack_app n k) = 0"
proof -
  have t: "int n + 1 \<noteq> 0" by simp
  have h: "[''text''] \<noteq> []" by simp
  note L1 = load_batches(1) [OF t h, where bs = "[haystack n k]" and rest = "[]" and a = init_app]
  note L = load_batches(2-8) [OF t h, where bs = "[haystack n k]" and a = init_app]
  have ld: "haystack_app n k =
            update_progress 100 (foldl deliver (update_progress 0 (load_file (Inr (int n + 1)) init_app))
              (batch_events (int n + 1) 0 (read_csv_chunks [''text''] 0 [haystack n k])))"
    unfolding haystack_app_def using L1 by simp
  have len: "length (haystack n k) = n"
    by (simp add: haystack_def)
  show ?thesis
    unfolding ld update_progress_model
    using L len
    by (simp add: frame_ok_def update_progress_frame)
qed

lemma haystack_matches:
  "map (\<lambda>r. list_ex (\<lambda>j. spec_field_matches rt ''Needle'' (r ! j)) [0..<1]) (haystack n k) =
   map (\<lambda>i. i = k) [0..<n]"
proof -
  have y: "cell_matches (re_search (map Lit ''Needle'')) (Some ''a needle'')"
    and n: "\<not> cell_matches (re_search (map Lit ''Needle'')) (Some ''hay'')"
    by code_simp+
  have y': "spec_field_matches rt ''Needle'' (PyStr ''a needle'')"
    and n': "\<not> spec_field_matches rt ''Needle'' (PyStr ''hay'')"
    using y n unfolding cell_matches_plain [symmetric] by (simp_all add: astype_str_def)
  show ?thesis
    by (simp add: haystack_def y' n')
qed

lemma haystack_result:
  assumes "k < n"
  shows "result_indices rt ''Needle'' (current_index (haystack_app n k) - 1)
           (df (model (haystack_app n k))) = Inr [int k]"
proof -
  let ?d = "df (model (haystack_app n k))"
  note S = haystack_app_state [of n k]
  have p: "plain ''Needle''"
    by (simp add: plain_def re_special_def)
  have m: "search_mask rt ''Needle'' (current_index (haystack_app n k) - 1) ?d =
           Inr (map (\<lambda>i. i = k) [0..<n])"
    using search_mask_all_plain [OF p, of "-1" ?d rt] S haystack_matches [of rt n k] by simp
  have "map fst (filter snd (zip (map int [0..<length (map (\<lambda>i. i = k) [0..<n])])
          (map (\<lambda>i. i = k) [0..<n]))) =
        map int (filter (\<lambda>i. map (\<lambda>i. i = k) [0..<n] ! i) [0..<length (map (\<lambda>i. i = k) [0..<n])])"
    by (rule filter_positions_mask)
  moreover have "filter (\<lambda>i. map (\<lambda>i. i = k) [0..<n] ! i) [0..<n] = filter (\<lambda>i. i = k) [0..<n]"
    by (rule filter_cong) simp_all
  ultimately have "map fst (filter snd (zip (map int [0..<n]) (map (\<lambda>i. i = k) [0..<n]))) = [int k]"
    using filter_eq_upt [OF assms] by simp
  then show ?thesis
    using m S by (simp add: result_indices_def)
qed

text \<open>
  The example of the specification: a dataset of 1000 rows and one column, the query
  in row 42 only, all-columns mode. The search returns \<open>[42]\<close> and moves the offset to 37.
\<close>

lemma search_repositions_example:
  "result_indices example_runtime ''Needle'' (current_index (haystack_app 1000 42) - 1)
     (df (model (haystack_app 1000 42))) = Inr [42] \<and>
   offset (model (haystack_app 1000 42)) = 0 \<and>
   offset (model (search_data example_runtime ''Needle'' (haystack_app 1000 42))) = 37 \<and>
   status (search_data example_runtime ''Needle'' (haystack_app 1000 42)) = FoundMatches 1"
proof -
  let ?a = "haystack_app 1000 42"
  note S = haystack_app_state [of 1000 42]
  have h1: "index (df (model ?a)) = map int [0..<length (rows (df (model ?a)))]"
    using S by (simp add: haystack_def del: upt_rec_numeral)
  have h2: "''Needle'' \<noteq> []" by simp
  have h3: "\<not> df_empty (df (model ?a))"
    using S by (simp add: df_empty_def haystack_def del: upt_rec_numeral)
  have h4: "result_indices example_runtime ''Needle'' (current_index ?a - 1) (df (model ?a)) =
            Inr [42]"
    using haystack_result [of 42 1000 example_runtime] by simp
  show ?thesis
    using search_repositions [OF h1 h2 h3 h4] h4 S
    by (simp add: offset_set_offset clamp_def VISIBLE_ROWS_def del: upt_rec_numeral)
qed

section \<open>Value formatting\<close>

lemma digit_char_is_digit: "n < 10 \<Longrightarrow> is_digit (digit_char n)"
  unfolding digit_char_def is_digit_def by (rule nth_mem) simp

lemma str_nat_digit: "n < 10 \<Longrightarrow> str_nat n = [digit_char n]"
  by (simp add: str_nat.simps)

lemma str_nat_step: "10 \<le> n \<Longrightarrow> str_nat n = str_nat (n div 10) @ [digit_char (n mod 10)]"
  by (subst str_nat.simps) simp

lemma str_nat_digits: "list_all is_digit (str_nat n)"
proof (induction n rule: str_nat.induct)
  case (1 n)
  show ?case
  proof (cases "n < 10")
    case True
    then show ?thesis by (simp add: str_nat_digit digit_char_is_digit)
  next
    case False
    then have "list_all is_digit (str_nat (n div 10))" using 1 by simp
    moreover have "is_digit (digit_char (n mod 10))" by (simp add: digit_char_is_digit)
    ultimately show ?thesis using False by (simp add: str_nat_step)
  qed
qed

lemma str_nat_length: "n < 10 ^ k \<Longrightarrow> 0 < k \<Longrightarrow> length (str_nat n) \<le> k"
proof (induction k arbitrary: n)
  case 0
  then show ?case by simp
next
  case (Suc k)
  show ?case
  proof (cases "n < 10")
    case True
    then show ?thesis by (simp add: str_nat_digit)
  next
    case False
    then have k: "0 < k" using Suc.prems(1) by (cases k) simp_all
    have "n div 10 < 10 ^ k" using Suc.prems(1) by (simp add: less_mult_imp_div_less mult.commute)
    then have "length (str_nat (n div 10)) \<le> k" using Suc.IH k by simp
    then show ?thesis using False by (simp add: str_nat_step)
  qed
qed

lemma is_digit_not_point: "is_digit c \<Longrightarrow> c \<noteq> CHR ''.''"
  by (auto simp: is_digit_def)

lemma fraction_part_point:
  assumes "list_all (\<lambda>c. c \<noteq> CHR ''.'') pre"
  shows "fraction_part (pre @ ''.'' @ fp) = fp"
proof -
  have "dropWhile (\<lambda>c. c \<noteq> CHR ''.'') (pre @ ''.'' @ fp) = ''.'' @ fp"
    using assms by (simp add: dropWhile_append2 list_all_iff)
  then show ?thesis by (simp add: fraction_part_def)
qed

lemma format_6f_finite:
  "length (fraction_part (format_6f (Finite s m e))) = 6 \<and>
   list_all is_digit (fraction_part (format_6f (Finite s m e))) \<and>
   CHR ''.'' \<in> set (format_6f (Finite s m e))"
proof -
  define q where "q = (if 0 \<le> e then m * 2 ^ nat e * 1000000
                       else rne_div (m * 1000000) (2 ^ nat (- e)))"
  let ?pre = "(if s then ''-'' else []) @ str_nat (q div 1000000)"
  let ?fp = "zero_pad6 (str_nat (q mod 1000000))"
  have f: "format_6f (Finite s m e) = ?pre @ ''.'' @ ?fp"
    by (simp add: format_6f_def q_def Let_def)
  have "list_all (\<lambda>c. c \<noteq> CHR ''.'') (str_nat (q div 1000000))"
    using str_nat_digits [of "q div 1000000"] is_digit_not_point
    by (auto simp: list_all_iff)
  then have pre: "list_all (\<lambda>c. c \<noteq> CHR ''.'') ?pre"
    by simp
  have fr: "fraction_part (format_6f (Finite s m e)) = ?fp"
    unfolding f by (rule fraction_part_point [OF pre])
  have "q mod 1000000 < 10 ^ 6" by simp
  then have l: "length (str_nat (q mod 1000000)) \<le> 6"
    by (rule str_nat_length) simp
  have len: "length ?fp = 6"
    using l by (simp add: zero_pad6_def)
  have "is_digit CHR ''0''" by (simp add: is_digit_def)
  then have dig: "list_all is_digit ?fp"
    using str_nat_digits [of "q mod 1000000"] by (auto simp: zero_pad6_def list_all_iff)
  have pt: "CHR ''.'' \<in> set (format_6f (Finite s m e))"
    unfolding f by simp
  show ?thesis
    using fr len dig pt by simp
qed


lemma mixed_store_eq:
  "mixed_store =
     \<lparr>df = \<lparr>columns = [''x'', ''y'', ''n'', ''s''], index = [0],
             rows = [[PyFloat (Finite False 3 (- 1)), NA, PyInt 42, PyStr ''abc'']]\<rparr>,
      display_df = \<lparr>columns = [''x'', ''y'', ''n'', ''s''], index = [0],
             rows = [[PyFloat (Finite False 3 (- 1)), NA, PyInt 42, PyStr ''abc'']]\<rparr>,
      total_rows = 1, loaded_rows = 1, offset = 0, layout_changed = 1\<rparr>"
  by code_simp

lemma replicate_numeral: "replicate (numeral k) x = x # replicate (pred_numeral k) x"
  by (simp add: numeral_eq_Suc)

lemma format_6f_example: "format_6f (Finite False 3 (- 1)) = ''1.500000''"
  by (simp add: format_6f_def rne_div_def zero_pad6_def str_nat_digit str_nat_step
      digit_char_def replicate_numeral Let_def)

lemma str_int_example: "str_int 42 = ''42''"
  by (simp add: str_int_def str_nat_digit str_nat_step digit_char_def)

text \<open>
  C10 (as amended). For every cell shown at the presentation boundary (a valid index
  inside the window, the display role), the text is the formatting of the cell's value: a
  missing value gives the empty text; a finite floating-point value gives a text with a
  decimal point followed by exactly six digits; an infinite one gives \<open>inf\<close> or \<open>-inf\<close>;
  every other value, integers included, gives its natural text form.
\<close>

theorem display_formats:
  assumes "\<not> df_empty (display_df m)" and "row < length (rows (display_df m))"
    and "col < length (columns (display_df m))"
  shows "data m (Index row col) DisplayRole =
           Some (Text (display_text (rows (display_df m) ! row ! col))) \<and>
         display_text NA = [] \<and>
         length (fraction_part (display_text (PyFloat (Finite s mant e)))) = 6 \<and>
         list_all is_digit (fraction_part (display_text (PyFloat (Finite s mant e)))) \<and>
         CHR ''.'' \<in> set (display_text (PyFloat (Finite s mant e))) \<and>
         display_text (PyFloat (Infinity s)) = (if s then ''-inf'' else ''inf'') \<and>
         display_text (PyStr t) = t \<and>
         display_text (PyInt i) = str_int i \<and>
         display_text (PyBool b) = str_bool b"
proof -
  have d: "data m (Index row col) DisplayRole =
           Some (Text (display_text (rows (display_df m) ! row ! col)))"
    using assms by (simp add: data_def Let_def)
  have f: "display_text (PyFloat (Finite s mant e)) = format_6f (Finite s mant e)"
    by (simp add: display_text_def)
  show ?thesis
    unfolding f using d format_6f_finite [of s mant e]
    by (simp add: display_text_def format_6f_def)
qed

text \<open>The theorem on the four cells of the one-row example.\<close>

theorem display_formats_witness:
  "data mixed_store (Index 0 0) DisplayRole = Some (Text ''1.500000'') \<and>
   data mixed_store (Index 0 1) DisplayRole = Some (Text []) \<and>
   data mixed_store (Index 0 2) DisplayRole = Some (Text ''42'') \<and>
   data mixed_store (Index 0 3) DisplayRole = Some (Text ''abc'') \<and>
   fraction_part ''1.500000'' = ''500000''"
proof -
  have h1: "\<not> df_empty (display_df mixed_store)"
    by (simp add: mixed_store_eq df_empty_def)
  have h2: "0 < length (rows (display_df mixed_store))"
    by (simp add: mixed_store_eq)
  have c: "0 < length (columns (display_df mixed_store))"
    "1 < length (columns (display_df mixed_store))"
    "2 < length (columns (display_df mixed_store))"
    "3 < length (columns (display_df mixed_store))"
    by (simp_all add: mixed_store_eq)
  show ?thesis
    using display_formats [OF h1 h2 c(1)] display_formats [OF h1 h2 c(2)]
      display_formats [OF h1 h2 c(3)] display_formats [OF h1 h2 c(4)]
    by (simp add: mixed_store_eq format_6f_example str_int_example display_text_def
        fraction_part_def)
qed

text \<open>
  C10 as stated fails on integers: the cell 42 of an integer column is a number (the
  alignment role of the same function takes it as one), and it is shown as \<open>42\<close>, with
  no fractional digit.
\<close>

theorem integer_display_counterexample:
  "rows (display_df mixed_store) ! 0 ! 2 = PyInt 42 \<and>
   data mixed_store (Index 0 2) TextAlignmentRole = Some (Alignment AlignRight) \<and>
   data mixed_store (Index 0 2) DisplayRole = Some (Text ''42'') \<and>
   fraction_part ''42'' = []"
  by (simp add: mixed_store_eq data_def df_empty_def display_text_def str_int_example
      is_number_def fraction_part_def)

section \<open>Progress\<close>

lemma progress_values_batch_events:
  "progress_values (batch_events t c chs) = map (\<lambda>n. percent n t) (cumulative c (map len chs))"
  by (induction chs arbitrary: c) (simp_all add: progress_values_def)

lemma progress_values_append:
  "progress_values (xs @ ys) = progress_values xs @ progress_values ys"
  by (simp add: progress_values_def)

lemma len_nonneg: "0 \<le> len d"
  by (simp add: len_def)

lemma rows_yielded_nonneg: "0 \<le> rows_yielded steps"
  by (induction steps rule: rows_yielded.induct) (simp_all add: len_nonneg)

lemma run_loop_progress_range:
  assumes "0 < t"
  shows "0 \<le> c \<Longrightarrow> c + rows_yielded steps \<le> t \<Longrightarrow>
         sorted (progress_values (run_loop t c steps)) \<and>
         list_all (\<lambda>v. percent c t \<le> v \<and> v \<le> 100) (progress_values (run_loop t c steps))"
proof (induction steps arbitrary: c rule: rows_yielded.induct)
  case 1
  have "percent c t \<le> 100"
    using percent_range [OF assms, of c] 1 by simp
  then show ?case by (simp add: progress_values_def)
next
  case (2 ch r steps)
  have t: "t \<noteq> 0" using assms by simp
  let ?c' = "c + len ch"
  have c': "0 \<le> ?c'" "c \<le> ?c'" "?c' \<le> t" "?c' + rows_yielded steps \<le> t"
    using 2(2,3) len_nonneg [of ch] rows_yielded_nonneg [of steps] by simp_all
  have top: "percent c t \<le> 100"
    using percent_range [OF assms, of c] 2(2) c' by simp
  show ?case
  proof (cases r)
    case False
    then show ?thesis using top by (simp add: progress_values_def)
  next
    case True
    note IH = 2(1) [OF c'(1) c'(4)]
    have m: "percent c t \<le> percent ?c' t"
      using percent_mono [OF assms 2(2) c'(2)] .
    have pv: "progress_values (run_loop t c ((Yield ch, r) # steps)) =
              percent ?c' t # progress_values (run_loop t ?c' steps)"
      using True t by (simp add: progress_of_percent progress_values_def)
    have "list_all (\<lambda>v. percent c t \<le> v \<and> v \<le> 100) (progress_values (run_loop t ?c' steps))"
      using IH m by (auto simp: list_all_iff)
    moreover have "percent ?c' t \<le> 100"
      using percent_range [OF assms c'(1) c'(3)] by simp
    ultimately show ?thesis
      unfolding pv using IH m by (auto simp: list_all_iff)
  qed
next
  case (3 e r steps)
  show ?case by (simp add: progress_values_def)
qed

lemma run_loop_last_progress:
  "failures (run_loop t c steps) = [] \<Longrightarrow>
   progress_values (run_loop t c steps) \<noteq> [] \<and> last (progress_values (run_loop t c steps)) = 100"
proof (induction steps arbitrary: c rule: rows_yielded.induct)
  case 1
  show ?case by (simp add: progress_values_def)
next
  case (2 ch r steps)
  show ?case
  proof (cases r)
    case False
    then show ?thesis by (simp add: progress_values_def)
  next
    case True
    show ?thesis
    proof (cases "progress_of (c + len ch) t")
      case (Inl e)
      then show ?thesis using 2(2) True by (simp add: failures_def)
    next
      case (Inr p)
      then have f: "failures (run_loop t (c + len ch) steps) = []"
        using 2(2) True by (simp add: failures_def)
      have pv: "progress_values (run_loop t c ((Yield ch, r) # steps)) =
                p # progress_values (run_loop t (c + len ch) steps)"
        using True Inr by (simp add: progress_values_def)
      show ?thesis
        unfolding pv using 2(1) [OF f] by simp
    qed
  qed
next
  case (3 e r steps)
  then show ?case by (simp add: failures_def)
qed


lemma two_row_progress: "progress_values (run (Inr 3) two_row_steps) = [0, 66, 100]"
  by code_simp

text \<open>
  C5 (as amended). For a file of \<open>t > 0\<close> lines: the progress values of a load that reads
  the chunks \<open>chs\<close> to the end are 0, then after every batch
  \<^verbatim>\<open>int((cumulative_rows / total_lines) * 100)\<close> (the quotient and the product rounded to
  doubles, the result truncated, not rounded), then 100. For every load whose chunks hold
  no more than \<open>t\<close> rows the progress values are non-decreasing, and the last progress
  value of a load that ends without a failure is 100.
\<close>

theorem progress_sequence:
  assumes "0 < t" and "rows_yielded steps \<le> t"
  shows "progress_values (run (Inr t) (yields chs)) =
           0 # map (\<lambda>n. percent n t) (cumulative 0 (map len chs)) @ [100] \<and>
         percent n t = py_int (py_mul (rn (of_int n / of_int t)) 100) \<and>
         sorted (progress_values (run (Inr t) steps)) \<and>
         (failures (run (Inr t) steps) = [] \<longrightarrow>
            last (progress_values (run (Inr t) steps)) = 100)"
proof -
  have t: "t \<noteq> 0" using assms(1) by simp
  have "run (Inr t) (yields chs) = ProgressUpdate 0 # batch_events t 0 chs @ [ProgressUpdate 100]"
    using run_loop_yields [OF t, of 0 chs "[]"] by (simp add: run_def)
  then have a: "progress_values (run (Inr t) (yields chs)) =
                0 # map (\<lambda>n. percent n t) (cumulative 0 (map len chs)) @ [100]"
    using progress_values_batch_events [of t 0 chs]
    by (simp add: progress_values_def)
  have b: "percent n t = py_int (py_mul (rn (of_int n / of_int t)) 100)"
    by (simp add: percent_def)
  have pv: "progress_values (run (Inr t) steps) = 0 # progress_values (run_loop t 0 steps)"
    by (simp add: run_def progress_values_def)
  have "sorted (progress_values (run_loop t 0 steps)) \<and>
        list_all (\<lambda>v. percent 0 t \<le> v \<and> v \<le> 100) (progress_values (run_loop t 0 steps))"
    using run_loop_progress_range [OF assms(1), of 0 steps] assms(2) by simp
  then have c: "sorted (progress_values (run (Inr t) steps))"
    unfolding pv by (auto simp: list_all_iff percent_zero)
  have d: "failures (run (Inr t) steps) = [] \<longrightarrow>
           last (progress_values (run (Inr t) steps)) = 100"
  proof
    assume "failures (run (Inr t) steps) = []"
    then have "failures (run_loop t 0 steps) = []"
      by (simp add: run_def failures_def)
    then show "last (progress_values (run (Inr t) steps)) = 100"
      unfolding pv using run_loop_last_progress [of t 0 steps] by simp
  qed
  show ?thesis
    by (intro conjI) (fact a b c d)+
qed

text \<open>The theorem on the file of three lines: the progress values are 0, 66 and 100.\<close>

theorem progress_sequence_witness:
  "progress_values (run (Inr 3) two_row_steps) = [0, 66, 100] \<and>
   sorted (progress_values (run (Inr 3) two_row_steps)) \<and>
   last (progress_values (run (Inr 3) two_row_steps)) = 100"
proof -
  have h1: "(0::int) < 3" by simp
  have h2: "rows_yielded two_row_steps \<le> 3"
    by (simp add: two_row_steps_def yields_def len_def)
  have f: "failures (run (Inr 3) two_row_steps) = []"
    by code_simp
  show ?thesis
    using progress_sequence [OF h1 h2, of "[]" 0] f two_row_progress by simp
qed

text \<open>
  C5 as stated fails: after the batch of two rows of a file of three lines the progress
  emitted is 66, and \<open>round (100 * 2 / 3)\<close> is 67.
\<close>

theorem progress_rounding_counterexample:
  "progress_values (run (Inr 3) two_row_steps) = [0, 66, 100] \<and>
   round (100 * 2 / (3::rat)) = 67"
proof -
  have "round (100 * 2 / (3::rat)) = 67"
    by (simp add: round_def floor_eq_iff)
  then show ?thesis
    using two_row_progress by simp
qed

section \<open>Debounced scrolling\<close>

lemma qt_int_id: "- 2147483648 \<le> v \<Longrightarrow> v < 2147483648 \<Longrightarrow> qt_int v = v"
  by (simp add: qt_int_def)

lemma update_model_from_scroll_value:
  "update_model_from_scroll mx tot w =
     (if 0 < tot \<and> 0 < mx
      then [qt_int (py_int (py_mul (rn (of_int (current_scroll_value w) / of_int mx))
                     (tot - VISIBLE_ROWS)))]
      else [])"
  by (simp add: update_model_from_scroll_def py_truediv_def)

lemma scroll_run_spaced:
  "spaced 47 changes \<Longrightarrow> changes \<noteq> [] \<Longrightarrow>
   (case scroll_timer w of None \<Rightarrow> True | Some due \<Rightarrow> fst (hd changes) + TIMER_EARLY < due) \<Longrightarrow>
   scroll_run mx tot w changes =
     update_model_from_scroll mx tot
       (w\<lparr>current_scroll_value := fst (snd (last changes)),
          scroll_timer := Some (fst (last changes) + 50)\<rparr>)"
proof (induction "47 :: nat" changes arbitrary: w rule: spaced.induct)
  case 1
  then show ?case by simp
next
  case (2 c)
  obtain now v fired where c: "c = (now, v, fired)" by (cases c)
  show ?case
    using 2(3) unfolding c
    by (auto simp: handle_scroll_def split: option.splits)
next
  case (3 c c' cs)
  obtain now v fired where c: "c = (now, v, fired)" by (cases c)
  let ?w' = "handle_scroll now v w"
  have step: "scroll_run mx tot w (c # c' # cs) = scroll_run mx tot ?w' (c' # cs)"
    using 3(4) unfolding c by (auto simp: split: option.splits)
  have b: "spaced 47 (c' # cs)" using 3(2) by simp
  have d: "case scroll_timer ?w' of None \<Rightarrow> True
           | Some due \<Rightarrow> fst (hd (c' # cs)) + TIMER_EARLY < due"
    using 3(2) by (simp add: handle_scroll_def c TIMER_EARLY_def)
  have "scroll_run mx tot ?w' (c' # cs) =
        update_model_from_scroll mx tot
          (?w'\<lparr>current_scroll_value := fst (snd (last (c' # cs))),
               scroll_timer := Some (fst (last (c' # cs)) + 50)\<rparr>)"
    using 3(1) [OF b _ d] by simp
  then show ?case
    unfolding step by (simp add: handle_scroll_def)
qed

text \<open>
  C6 (as amended). For every burst of \<open>N \<ge> 1\<close> raw scroll changes, consecutive ones less
  than 47 ms apart (the delay of 50 ms less the 3 ms by which the coarse timer may fire
  early), that reaches a view whose timer is not running, and whenever the event loop
  serves the timer: every change restarts the timer, so that no request of an earlier
  change is delivered; after the burst the timer fires once, and when \<open>total_rows > 0\<close>
  and the maximum of the scroll bar is positive exactly one offset request is delivered,
  the mapping of the last raw change, \<^verbatim>\<open>int((position / max_position) * (total - W))\<close>,
  truncated, not rounded, where that value is a signed 32-bit integer, as the signal
  carries; otherwise none is delivered.
\<close>

theorem debounced_burst:
  assumes "spaced 47 changes" and "changes \<noteq> []" and "scroll_timer w = None"
    and "- 2147483648 \<le> py_int (py_mul (rn (of_int (fst (snd (last changes))) / of_int max_scroll))
             (rows_total - VISIBLE_ROWS))"
    and "py_int (py_mul (rn (of_int (fst (snd (last changes))) / of_int max_scroll))
             (rows_total - VISIBLE_ROWS)) < 2147483648"
  shows "scroll_run max_scroll rows_total w changes =
           (if 0 < rows_total \<and> 0 < max_scroll
            then [py_int (py_mul (rn (of_int (fst (snd (last changes))) / of_int max_scroll))
                    (rows_total - VISIBLE_ROWS))]
            else []) \<and>
         length (scroll_run max_scroll rows_total w changes) \<le> 1"
proof -
  have "scroll_run max_scroll rows_total w changes =
        update_model_from_scroll max_scroll rows_total
          (w\<lparr>current_scroll_value := fst (snd (last changes)),
             scroll_timer := Some (fst (last changes) + 50)\<rparr>)"
    using scroll_run_spaced [OF assms(1,2), of w] assms(3) by simp
  then show ?thesis
    using qt_int_id [OF assms(4,5)] by (simp add: update_model_from_scroll_value)
qed

text \<open>
  The theorem on a burst of three changes, 20 ms and 40 ms apart, on a scroll bar of
  maximum 100 over 1100 rows: one request, for the last position, whether or not the
  event loop was ready to serve the timer at the changes.
\<close>

theorem debounced_burst_witness:
  "spaced 47 [(0, 10, True), (20, 50, True), (60, 30, False)] \<and>
   scroll_run 100 1100 init_view [(0, 10, True), (20, 50, True), (60, 30, False)] = [300]"
proof -
  have h1: "spaced 47 [(0::nat, 10::int, True), (20, 50, True), (60, 30, False)]" by simp
  have h2: "[(0::nat, 10::int, True), (20, 50, True), (60, 30, False)] \<noteq> []" by simp
  have h3: "scroll_timer init_view = None" by (simp add: init_view_def)
  have v: "py_int (py_mul (rn (of_int 30 / of_int 100)) (1100 - VISIBLE_ROWS)) = 300"
    by code_simp
  have h4: "- 2147483648 \<le> py_int (py_mul (rn (of_int (fst (snd (last
              [(0::nat, 10::int, True), (20, 50, True), (60, 30, False)]))) / of_int 100))
              (1100 - VISIBLE_ROWS))"
    using v by simp
  have h5: "py_int (py_mul (rn (of_int (fst (snd (last
              [(0::nat, 10::int, True), (20, 50, True), (60, 30, False)]))) / of_int 100))
              (1100 - VISIBLE_ROWS)) < 2147483648"
    using v by simp
  show ?thesis
    using debounced_burst [OF h1 h2 h3 h4 h5] v h1
    by (simp del: scroll_run.simps spaced.simps)
qed

text \<open>
  C6 as stated fails in three ways. One change to position 1 of a scroll bar of maximum 3
  over 300 rows delivers the offset 66, and \<open>round ((1 / 3) * (300 - 100))\<close> is 67. With a
  scroll bar of maximum 0 the timer fires and no request is delivered at all. And two
  changes 49 ms apart, less than the delay, deliver two requests where the timer fired
  early, before the second change.
\<close>

theorem scroll_mapping_counterexample:
  "scroll_run 3 300 init_view [(0, 1, False)] = [66] \<and>
   round ((1 / 3) * (300 - 100) :: rat) = 67 \<and>
   scroll_run 0 300 init_view [(0, 0, False)] = [] \<and>
   spaced 50 [(0, 10, False), (49, 50, True)] \<and>
   scroll_run 100 1100 init_view [(0, 10, False), (49, 50, True)] = [100, 500]"
proof -
  have a: "scroll_run 3 300 init_view [(0, 1, False)] = [66]"
    by code_simp
  have b: "round ((1 / 3) * (300 - 100) :: rat) = 67"
    by (simp add: round_def floor_eq_iff)
  have c: "scroll_run 0 300 init_view [(0, 0, False)] = []"
    by code_simp
  have d: "spaced 50 [(0::nat, 10::int, False), (49, 50, True)]"
    by simp
  have e: "scroll_run 100 1100 init_view [(0, 10, False), (49, 50, True)] = [100, 500]"
    by code_simp
  show ?thesis
    by (intro conjI) (fact a b c d e)+
qed

text \<open>
  A mapped value that is no 32-bit integer arrives wrapped: the last position of a scroll
  bar over 3000000100 rows maps to 3000000000, and the slot receives \<open>-1294967296\<close>.
\<close>

lemma scroll_value_wraps:
  "scroll_run 1 3000000100 init_view [(0, 1, False)] = [- 1294967296]"
  by code_simp

section \<open>Searches over a labelled index\<close>

lemma labelled_app_eq:
  "labelled_app =
     \<lparr>model =
        \<lparr>df = \<lparr>columns = [''name''], index = [1030, 1020, 1010],
                rows = [[PyStr ''abc''], [PyStr ''xyz''], [PyStr ''abd'']]\<rparr>,
         display_df = \<lparr>columns = [''name''], index = [1030, 1020, 1010],
                rows = [[PyStr ''abc''], [PyStr ''xyz''], [PyStr ''abd'']]\<rparr>,
         total_rows = 1103, loaded_rows = 3, offset = 0, layout_changed = 1\<rparr>,
      status = LoadedSuccessfully, progress_value = 100, progress_visible = False,
      search_column = [''All Columns'', ''name''], current_index = 0,
      dialogs = []\<rparr>"
  by code_simp

text \<open>
  C3 fails on a file whose data rows have one field more than the header: \<^verbatim>\<open>read_csv\<close>
  takes the first field as the index label, and \<^verbatim>\<open>df[mask].index\<close> holds labels, which
  the search uses as row positions. In the example the rows at positions 0 and 2 match;
  the result is \<open>[1030, 1010]\<close>, neither ascending nor positions of the three rows, and the
  offset is set from the label 1030 to 1003, not to \<open>max 0 (0 - 5) = 0\<close>.
\<close>

theorem search_labelled_index:
  "index (df (model labelled_app)) = [1030, 1020, 1010] \<and>
   len (df (model labelled_app)) = 3 \<and>
   total_rows (model labelled_app) = 1103 \<and>
   search_mask example_runtime ''ab'' (current_index labelled_app - 1) (df (model labelled_app)) =
     Inr [True, False, True] \<and>
   result_indices example_runtime ''ab'' (current_index labelled_app - 1) (df (model labelled_app)) =
     Inr [1030, 1010] \<and>
   \<not> sorted_wrt (<) [1030, 1010 :: int] \<and>
   offset (model (search_data example_runtime ''ab'' labelled_app)) = 1003 \<and>
   status (search_data example_runtime ''ab'' labelled_app) = FoundMatches 2"
proof -
  have a: "index (df (model labelled_app)) = [1030, 1020, 1010]"
    "len (df (model labelled_app)) = 3" "total_rows (model labelled_app) = 1103"
    by (simp_all add: labelled_app_eq len_def)
  have m: "search_mask example_runtime ''ab'' (current_index labelled_app - 1)
             (df (model labelled_app)) = Inr [True, False, True]"
    unfolding labelled_app_eq by code_simp
  have r: "result_indices example_runtime ''ab'' (current_index labelled_app - 1)
             (df (model labelled_app)) = Inr [1030, 1010]"
    using m a(1) by (simp add: result_indices_def)
  have s: "\<not> sorted_wrt (<) [1030, 1010 :: int]"
    by simp
  have d: "search_data example_runtime ''ab'' labelled_app =
           labelled_app\<lparr>model := set_offset (max 0 (1030 - 5)) (model labelled_app),
                         status := FoundMatches 2\<rparr>"
    using r by (simp add: search_data_def labelled_app_eq df_empty_def Let_def)
  have o: "offset (model (search_data example_runtime ''ab'' labelled_app)) = 1003"
    unfolding d by (simp add: labelled_app_eq set_offset_def update_display_data_def
        VISIBLE_ROWS_def len_def Let_def)
  have t: "status (search_data example_runtime ''ab'' labelled_app) = FoundMatches 2"
    unfolding d by simp
  show ?thesis
    by (intro conjI) (fact a m r s o t)+
qed

end
